theory Spec2Isabelle
  imports Complex_Main
begin

section \<open>Repeat-detection elimination: find_repeat_detections.py\<close>

text \<open>
  A shallow embedding of \<^verbatim>\<open>api/batch_processing/postprocessing/find_repeat_detections.py\<close>.

  Conventions of the embedding:
  \<^item> Python floats (confidences, box coordinates, thresholds) are real numbers. Comparisons
    and negation are exact on floats, so they behave as on reals; products, differences
    and quotients are the exact ones (no rounding).
  \<^item> Every \<^verbatim>\<open>assert\<close>, failing index and failing key of the source is a value
    \<open>Inl e\<close> of the result type \<open>error + 'a\<close>; a run that raises returns nothing else.
  \<^item> The pandas table \<^verbatim>\<open>detectionResults\<close> is the list of its rows, with the default
    index \<open>0, 1, \<dots>\<close>, so that the label \<^verbatim>\<open>iRow\<close> of \<^verbatim>\<open>iterrows\<close> is the position
    read by \<^verbatim>\<open>iloc\<close>.
  \<^item> A Python dict whose iteration order matters (\<^verbatim>\<open>rowsByDirectory\<close>) is an association
    list in insertion order; \<^verbatim>\<open>filenameToRow\<close> is a map.
  \<^item> Functions the module calls but does not define (\<^verbatim>\<open>ct_utils.get_iou\<close>,
    \<^verbatim>\<open>ct_utils.is_image_file\<close>, \<^verbatim>\<open>os.path\<close>, \<^verbatim>\<open>int\<close>, reading the two input files)
    are fields of an environment record; the definitions and theorems hold for every
    environment.
  \<^item> Printing, progress bars, image rendering and the counters that are only printed
    are left out; \<^verbatim>\<open>bRenderHtml\<close> is taken at its default \<^verbatim>\<open>False\<close>.
\<close>

subsection \<open>Errors\<close>

datatype error = AssertionError | IndexError | KeyError | TypeError | ValueError | ZeroDivisionError

subsection \<open>Data model\<close>

text \<open>One element of \<^verbatim>\<open>row['detections']\<close>: the dict with keys
  \<^verbatim>\<open>category\<close>, \<^verbatim>\<open>conf\<close>, \<^verbatim>\<open>bbox\<close>. The record has all three fields, so the source's
  assertion that the three keys are present always holds. \<^verbatim>\<open>bbox\<close> is a Python list
  \<^verbatim>\<open>[x_min, y_min, width, height]\<close>, kept as a list because the source slices and
  indexes it.\<close>

record detection =
  category :: string
  conf :: real
  bbox :: "real list"

text \<open>One row of the detection table; \<open>row_file\<close> is the column \<^verbatim>\<open>file\<close>.\<close>

record row =
  row_file :: string
  max_detection_conf :: real
  detections :: "detection list"

text \<open>class IndexedDetection\<close>

record IndexedDetection =
  iDetection :: int
  filename :: string
  inst_bbox :: "real list"
  confidence :: real
  inst_category :: string

text \<open>class DetectionLocation\<close>

record DetectionLocation =
  instances :: "IndexedDetection list"
  loc_bbox :: "real list"
  relativeDir :: string
  sampleImageRelativeFileName :: string

text \<open>class RepeatDetectionOptions: the fields the analysis reads.\<close>

record RepeatDetectionOptions =
  imageBase :: string
  outputBase :: string
  confidenceMin :: real
  confidenceMax :: real
  iouThreshold :: real
  occurrenceThreshold :: int
  maxSuspiciousDetectionSize :: real
  excludeClasses :: "int list"
  filterFileToLoad :: string
  filteredFileListToLoad :: "string option"
  bWriteFilteringFolder :: bool
  debugMaxDir :: int
  nDirLevelsFromLeaf :: int

text \<open>The class attributes of RepeatDetectionOptions, which are its defaults.\<close>

definition default_options :: RepeatDetectionOptions where
  "default_options =
    \<lparr>imageBase = [], outputBase = [],
     confidenceMin = 0.849, confidenceMax = 1.0, iouThreshold = 0.9,
     occurrenceThreshold = 15, maxSuspiciousDetectionSize = 0.2,
     excludeClasses = [], filterFileToLoad = [], filteredFileListToLoad = None,
     bWriteFilteringFolder = True, debugMaxDir = - 1, nDirLevelsFromLeaf = 0\<rparr>"

text \<open>The functions the module imports. \<open>decode_filter_file f\<close> is
  \<^verbatim>\<open>jsonpickle.decode(open(f).read())\<close>; \<open>read_file_list f\<close> is the list of the
  stripped lines of \<^verbatim>\<open>f\<close> (the value of \<^verbatim>\<open>fileList\<close> after the list
  comprehension).\<close>

record env =
  get_iou :: "real list \<Rightarrow> real list \<Rightarrow> error + real"
  is_image_file :: "string \<Rightarrow> bool"
  dirname :: "string \<Rightarrow> string"
  path_join :: "string \<Rightarrow> string \<Rightarrow> string"
  isfile :: "string \<Rightarrow> bool"
  py_int :: "string \<Rightarrow> error + int"
  decode_filter_file :: "string \<Rightarrow> DetectionLocation list list"
  read_file_list :: "string \<Rightarrow> string list"

subsection \<open>Python list operations\<close>

text \<open>\<^verbatim>\<open>xs[0:n]\<close>: a negative \<open>n\<close> counts from the end.\<close>

definition py_slice_to :: "'a list \<Rightarrow> int \<Rightarrow> 'a list" where
  "py_slice_to xs n =
     (if n < 0 then take (nat (int (length xs) + n)) xs else take (nat n) xs)"

text \<open>The position read by \<^verbatim>\<open>xs[i]\<close>; \<open>None\<close> where Python raises IndexError.\<close>

definition py_index :: "'a list \<Rightarrow> int \<Rightarrow> nat option" where
  "py_index xs i =
     (let n = int (length xs); j = (if i < 0 then n + i else i)
      in if 0 \<le> j \<and> j < n then Some (nat j) else None)"

subsection \<open>find_matches_in_directory\<close>

text \<open>DetectionLocation.__init__\<close>

definition new_location :: "IndexedDetection \<Rightarrow> detection \<Rightarrow> string \<Rightarrow> DetectionLocation" where
  "new_location instance det relDir =
     \<lparr>instances = [instance], loc_bbox = bbox det, relativeDir = relDir,
      sampleImageRelativeFileName = []\<rparr>"

text \<open>The loop over \<^verbatim>\<open>candidateDetections\<close> for one detection: it returns the
  flag \<^verbatim>\<open>bFoundSimilarDetection\<close> and the candidates after the appends. There is
  no \<^verbatim>\<open>break\<close>.\<close>

fun match_candidates ::
  "env \<Rightarrow> RepeatDetectionOptions \<Rightarrow> real list \<Rightarrow> IndexedDetection \<Rightarrow> bool \<Rightarrow>
   DetectionLocation list \<Rightarrow> error + bool \<times> DetectionLocation list" where
  "match_candidates E opts bb inst bFound [] = Inr (bFound, [])"
| "match_candidates E opts bb inst bFound (c # cs) =
     (case get_iou E bb (loc_bbox c) of
        Inl e \<Rightarrow> Inl e
      | Inr iou \<Rightarrow>
          if iou \<ge> iouThreshold opts then
            (case match_candidates E opts bb inst True cs of
               Inl e \<Rightarrow> Inl e
             | Inr (b, cs') \<Rightarrow> Inr (b, c\<lparr>instances := instances c @ [inst]\<rparr> # cs'))
          else
            (case match_candidates E opts bb inst bFound cs of
               Inl e \<Rightarrow> Inl e
             | Inr (b, cs') \<Rightarrow> Inr (b, c # cs')))"

text \<open>The test on \<^verbatim>\<open>excludeClasses\<close>; \<^verbatim>\<open>int(detection['category'])\<close> may raise.\<close>

definition is_excluded :: "env \<Rightarrow> RepeatDetectionOptions \<Rightarrow> detection \<Rightarrow> error + bool" where
  "is_excluded E opts det =
     (if length (excludeClasses opts) > 0 then
        (case py_int E (category det) of
           Inl e \<Rightarrow> Inl e
         | Inr iClass \<Rightarrow> Inr (iClass \<in> set (excludeClasses opts)))
      else Inr False)"

text \<open>The body of the loop over the detections of one image.\<close>

definition process_detection ::
  "env \<Rightarrow> RepeatDetectionOptions \<Rightarrow> string \<Rightarrow> row \<Rightarrow> DetectionLocation list \<Rightarrow> int \<Rightarrow>
   detection \<Rightarrow> error + DetectionLocation list" where
  "process_detection E opts dirName r cands iDet det =
     (if \<not> (conf det \<ge> 0 \<and> conf det \<le> 1) then Inl AssertionError
      else if conf det < confidenceMin opts then Inr cands
      else if conf det > confidenceMax opts then Inr cands
      else
        (case is_excluded E opts det of
           Inl e \<Rightarrow> Inl e
         | Inr True \<Rightarrow> Inr cands
         | Inr False \<Rightarrow>
             if length (bbox det) < 4 then Inl IndexError
             else
               (let w = bbox det ! 2; h = bbox det ! 3; area = h * w in
                if \<not> (area \<ge> 0 \<and> area \<le> 1) then Inl AssertionError
                else if area > maxSuspiciousDetectionSize opts then Inr cands
                else
                  (let instance =
                     \<lparr>iDetection = iDet, filename = row_file r, inst_bbox = bbox det,
                      confidence = conf det, inst_category = category det\<rparr>
                   in case match_candidates E opts (bbox det) instance False cands of
                        Inl e \<Rightarrow> Inl e
                      | Inr (bFound, cands') \<Rightarrow>
                          if \<not> bFound
                          then Inr (cands' @ [new_location instance det dirName])
                          else Inr cands'))))"

fun detections_loop ::
  "env \<Rightarrow> RepeatDetectionOptions \<Rightarrow> string \<Rightarrow> row \<Rightarrow> DetectionLocation list \<Rightarrow> int \<Rightarrow>
   detection list \<Rightarrow> error + DetectionLocation list" where
  "detections_loop E opts dirName r cands iDet [] = Inr cands"
| "detections_loop E opts dirName r cands iDet (det # dets) =
     (case process_detection E opts dirName r cands iDet det of
        Inl e \<Rightarrow> Inl e
      | Inr cands' \<Rightarrow> detections_loop E opts dirName r cands' (iDet + 1) dets)"

text \<open>The body of the loop over the rows of one directory.\<close>

definition process_row ::
  "env \<Rightarrow> RepeatDetectionOptions \<Rightarrow> string \<Rightarrow> DetectionLocation list \<Rightarrow> row \<Rightarrow>
   error + DetectionLocation list" where
  "process_row E opts dirName cands r =
     (if \<not> is_image_file E (row_file r) then Inr cands
      else if max_detection_conf r < confidenceMin opts then Inr cands
      else if \<not> length (detections r) > 0 then Inl AssertionError
      else detections_loop E opts dirName r cands 0 (detections r))"

fun rows_loop ::
  "env \<Rightarrow> RepeatDetectionOptions \<Rightarrow> string \<Rightarrow> DetectionLocation list \<Rightarrow> row list \<Rightarrow>
   error + DetectionLocation list" where
  "rows_loop E opts dirName cands [] = Inr cands"
| "rows_loop E opts dirName cands (r # rs) =
     (case process_row E opts dirName cands r of
        Inl e \<Rightarrow> Inl e
      | Inr cands' \<Rightarrow> rows_loop E opts dirName cands' rs)"

definition find_matches_in_directory ::
  "env \<Rightarrow> string \<Rightarrow> RepeatDetectionOptions \<Rightarrow> (string \<times> row list) list \<Rightarrow>
   error + DetectionLocation list" where
  "find_matches_in_directory E dirName opts rowsByDirectory =
     (case map_of rowsByDirectory dirName of
        None \<Rightarrow> Inl KeyError
      | Some rows \<Rightarrow> rows_loop E opts dirName [] rows)"

subsection \<open>Separating files into directories\<close>

text \<open>The \<^verbatim>\<open>while\<close> loop that walks up \<^verbatim>\<open>nDirLevelsFromLeaf\<close> levels.\<close>

function walk_up :: "env \<Rightarrow> int \<Rightarrow> int \<Rightarrow> string \<Rightarrow> string" where
  "walk_up E n iLevel dirName =
     (if iLevel < n then walk_up E n (iLevel + 1) (dirname E dirName) else dirName)"
  by pat_completeness auto
termination
  by (relation "measure (\<lambda>(E, n, iLevel, dirName). nat (n - iLevel))") auto

declare walk_up.simps [simp del]

text \<open>The directory key of a path: \<^verbatim>\<open>dirName\<close> at the assertion
  \<^verbatim>\<open>len(dirName) > 0\<close>.\<close>

definition dir_key :: "env \<Rightarrow> RepeatDetectionOptions \<Rightarrow> string \<Rightarrow> string" where
  "dir_key E opts relativePath =
     (let dirName = dirname E relativePath
      in if nDirLevelsFromLeaf opts > 0
         then walk_up E (nDirLevelsFromLeaf opts) 0 dirName else dirName)"

text \<open>\<^verbatim>\<open>if not dirName in rowsByDirectory: rowsByDirectory[dirName] = []\<close>, then
  \<^verbatim>\<open>rowsByDirectory[dirName].append(row)\<close>. A new key goes to the end of the dict.\<close>

definition add_row ::
  "(string \<times> row list) list \<Rightarrow> string \<Rightarrow> row \<Rightarrow> (string \<times> row list) list" where
  "add_row rowsByDirectory dirName r =
     (let rbd = (if dirName \<notin> set (map fst rowsByDirectory)
                 then rowsByDirectory @ [(dirName, [])] else rowsByDirectory)
      in map (\<lambda>(k, rs). if k = dirName then (k, rs @ [r]) else (k, rs)) rbd)"

fun separate_loop ::
  "env \<Rightarrow> RepeatDetectionOptions \<Rightarrow> (string \<times> row list) list \<Rightarrow> (string \<rightharpoonup> nat) \<Rightarrow> nat \<Rightarrow>
   row list \<Rightarrow> error + (string \<times> row list) list \<times> (string \<rightharpoonup> nat)" where
  "separate_loop E opts rowsByDirectory filenameToRow iRow [] =
     Inr (rowsByDirectory, filenameToRow)"
| "separate_loop E opts rowsByDirectory filenameToRow iRow (r # rs) =
     (let relativePath = row_file r; dirName = dir_key E opts relativePath in
      if \<not> length dirName > 0 then Inl AssertionError
      else if filenameToRow relativePath \<noteq> None then Inl AssertionError
      else separate_loop E opts (add_row rowsByDirectory dirName r)
             (filenameToRow(relativePath \<mapsto> iRow)) (Suc iRow) rs)"

definition separate_files ::
  "env \<Rightarrow> RepeatDetectionOptions \<Rightarrow> row list \<Rightarrow>
   error + (string \<times> row list) list \<times> (string \<rightharpoonup> nat)" where
  "separate_files E opts detectionResults =
     separate_loop E opts [] Map.empty 0 detectionResults"

subsection \<open>Looking for matches and flagging suspicious locations\<close>

text \<open>\<^verbatim>\<open>list(rowsByDirectory.keys())[0:options.debugMaxDir]\<close>\<close>

definition dirsToSearch ::
  "RepeatDetectionOptions \<Rightarrow> (string \<times> row list) list \<Rightarrow> string list" where
  "dirsToSearch opts rowsByDirectory =
     py_slice_to (map fst rowsByDirectory) (debugMaxDir opts)"

text \<open>\<^verbatim>\<open>allCandidateDetections\<close>: one call of find_matches_in_directory for each
  directory searched, collected in the order of the directories.\<close>

fun find_all_matches ::
  "env \<Rightarrow> RepeatDetectionOptions \<Rightarrow> (string \<times> row list) list \<Rightarrow> string list \<Rightarrow>
   error + DetectionLocation list list" where
  "find_all_matches E opts rowsByDirectory [] = Inr []"
| "find_all_matches E opts rowsByDirectory (dirName # ds) =
     (case find_matches_in_directory E dirName opts rowsByDirectory of
        Inl e \<Rightarrow> Inl e
      | Inr cands \<Rightarrow>
          (case find_all_matches E opts rowsByDirectory ds of
             Inl e \<Rightarrow> Inl e
           | Inr rest \<Rightarrow> Inr (cands # rest)))"

text \<open>The loop over \<^verbatim>\<open>candidateDetectionsThisDir\<close> that fills
  \<^verbatim>\<open>suspiciousDetectionsThisDir\<close>.\<close>

fun suspicious_this_dir ::
  "RepeatDetectionOptions \<Rightarrow> DetectionLocation list \<Rightarrow> DetectionLocation list" where
  "suspicious_this_dir opts [] = []"
| "suspicious_this_dir opts (candidateLocation # cs) =
     (let nOccurrences = int (length (instances candidateLocation)) in
      if nOccurrences < occurrenceThreshold opts then suspicious_this_dir opts cs
      else candidateLocation # suspicious_this_dir opts cs)"

definition find_suspicious ::
  "RepeatDetectionOptions \<Rightarrow> DetectionLocation list list \<Rightarrow> DetectionLocation list list" where
  "find_suspicious opts allCandidateDetections =
     map (suspicious_this_dir opts) allCandidateDetections"

subsection \<open>Loading suspicious locations from a filtering file\<close>

text \<open>The loop that clears \<^verbatim>\<open>bValidDetection[iDetection]\<close> for the detections of
  one directory.\<close>

fun mark_invalid ::
  "env \<Rightarrow> string \<Rightarrow> string list option \<Rightarrow> bool list \<Rightarrow> nat \<Rightarrow> DetectionLocation list \<Rightarrow>
   bool list" where
  "mark_invalid E filteringBaseDir fileList bValidDetection iDet [] = bValidDetection"
| "mark_invalid E filteringBaseDir fileList bValidDetection iDet (d # ds) =
     (case fileList of
        None \<Rightarrow>
          (let imageFullPath = path_join E filteringBaseDir (sampleImageRelativeFileName d) in
           if \<not> isfile E imageFullPath
           then mark_invalid E filteringBaseDir fileList
                  (bValidDetection[iDet := False]) (Suc iDet) ds
           else mark_invalid E filteringBaseDir fileList bValidDetection (Suc iDet) ds)
      | Some fl \<Rightarrow>
          if sampleImageRelativeFileName d \<notin> set fl
          then mark_invalid E filteringBaseDir fileList
                 (bValidDetection[iDet := False]) (Suc iDet) ds
          else mark_invalid E filteringBaseDir fileList bValidDetection (Suc iDet) ds)"

text \<open>itertools.compress\<close>

fun compress :: "'a list \<Rightarrow> bool list \<Rightarrow> 'a list" where
  "compress (x # xs) (b # bs) = (if b then x # compress xs bs else compress xs bs)"
| "compress xs bs = []"

definition filter_loaded_dir ::
  "env \<Rightarrow> string \<Rightarrow> string list option \<Rightarrow> DetectionLocation list \<Rightarrow> DetectionLocation list" where
  "filter_loaded_dir E filteringBaseDir fileList dets =
     compress dets
       (mark_invalid E filteringBaseDir fileList (replicate (length dets) True) 0 dets)"

definition load_suspicious ::
  "env \<Rightarrow> RepeatDetectionOptions \<Rightarrow> string list \<Rightarrow> error + DetectionLocation list list" where
  "load_suspicious E opts dirs =
     (let suspiciousDetections = decode_filter_file E (filterFileToLoad opts);
          filteringBaseDir = dirname E (filterFileToLoad opts)
      in if length suspiciousDetections \<noteq> length dirs then Inl AssertionError
         else
           (let fileList = (case filteredFileListToLoad opts of
                              None \<Rightarrow> None
                            | Some f \<Rightarrow> Some (read_file_list E f))
            in Inr (map (filter_loaded_dir E filteringBaseDir fileList)
                      suspiciousDetections)))"

subsection \<open>update_detection_table\<close>

text \<open>The body of the innermost loop of the first pass, for one instance of a suspicious
  location. The detection dicts are shared between the rows handed out by pandas and the
  table, so the assignment to \<^verbatim>\<open>detectionToModify['conf']\<close> changes the table.\<close>

definition negate_instance ::
  "env \<Rightarrow> RepeatDetectionOptions \<Rightarrow> (string \<rightharpoonup> nat) \<Rightarrow> real list \<Rightarrow> row list \<Rightarrow>
   IndexedDetection \<Rightarrow> error + row list" where
  "negate_instance E opts filenameToRow locationBbox table instance =
     (let instanceBbox = inst_bbox instance in
      case get_iou E instanceBbox locationBbox of
        Inl e \<Rightarrow> Inl e
      | Inr iou \<Rightarrow>
          if \<not> iou \<ge> iouThreshold opts then Inl AssertionError
          else
            (case filenameToRow (filename instance) of
               None \<Rightarrow> Inl AssertionError
             | Some iRow \<Rightarrow>
                 if \<not> iRow < length table then Inl IndexError
                 else
                   (let r = table ! iRow; rowDetections = detections r in
                    case py_index rowDetections (iDetection instance) of
                      None \<Rightarrow> Inl IndexError
                    | Some j \<Rightarrow>
                        (let detectionToModify = rowDetections ! j in
                         if \<not> take 3 instanceBbox = take 3 (bbox detectionToModify)
                         then Inl AssertionError
                         else if conf detectionToModify \<ge> 0
                         then Inr (table[iRow := r\<lparr>detections :=
                                 rowDetections[j := detectionToModify
                                   \<lparr>conf := - 1 * conf detectionToModify\<rparr>]\<rparr>])
                         else Inr table))))"

fun negate_instances ::
  "env \<Rightarrow> RepeatDetectionOptions \<Rightarrow> (string \<rightharpoonup> nat) \<Rightarrow> real list \<Rightarrow> row list \<Rightarrow>
   IndexedDetection list \<Rightarrow> error + row list" where
  "negate_instances E opts filenameToRow locationBbox table [] = Inr table"
| "negate_instances E opts filenameToRow locationBbox table (instance # rest) =
     (case negate_instance E opts filenameToRow locationBbox table instance of
        Inl e \<Rightarrow> Inl e
      | Inr table' \<Rightarrow> negate_instances E opts filenameToRow locationBbox table' rest)"

fun negate_events ::
  "env \<Rightarrow> RepeatDetectionOptions \<Rightarrow> (string \<rightharpoonup> nat) \<Rightarrow> row list \<Rightarrow>
   DetectionLocation list \<Rightarrow> error + row list" where
  "negate_events E opts filenameToRow table [] = Inr table"
| "negate_events E opts filenameToRow table (detectionEvent # rest) =
     (case negate_instances E opts filenameToRow (loc_bbox detectionEvent) table
             (instances detectionEvent) of
        Inl e \<Rightarrow> Inl e
      | Inr table' \<Rightarrow> negate_events E opts filenameToRow table' rest)"

text \<open>The first pass: the loop over \<^verbatim>\<open>suspiciousDetectionsByDirectory\<close>.\<close>

fun negate_suspicious ::
  "env \<Rightarrow> RepeatDetectionOptions \<Rightarrow> (string \<rightharpoonup> nat) \<Rightarrow> row list \<Rightarrow>
   DetectionLocation list list \<Rightarrow> error + row list" where
  "negate_suspicious E opts filenameToRow table [] = Inr table"
| "negate_suspicious E opts filenameToRow table (directoryEvents # rest) =
     (case negate_events E opts filenameToRow table directoryEvents of
        Inl e \<Rightarrow> Inl e
      | Inr table' \<Rightarrow> negate_suspicious E opts filenameToRow table' rest)"

text \<open>The loop over the detections of one row in the second pass: the running maximum
  \<^verbatim>\<open>maxP\<close> (\<open>None\<close> at the start) and the count \<^verbatim>\<open>nNegative\<close>.\<close>

fun max_conf_loop :: "real option \<Rightarrow> nat \<Rightarrow> detection list \<Rightarrow> real option \<times> nat" where
  "max_conf_loop maxP nNegative [] = (maxP, nNegative)"
| "max_conf_loop maxP nNegative (d # ds) =
     (let p = conf d;
          nNegative' = (if p < 0 then nNegative + 1 else nNegative);
          maxP' = (case maxP of None \<Rightarrow> Some p
                   | Some m \<Rightarrow> if p > m then Some p else Some m)
      in max_conf_loop maxP' nNegative' ds)"

text \<open>The body of the second pass for one row.\<close>

definition update_max_conf :: "row \<Rightarrow> error + row" where
  "update_max_conf r =
     (if length (detections r) = 0 then Inr r
      else
        (let maxPOriginal = max_detection_conf r in
         if \<not> maxPOriginal \<ge> 0 then Inl AssertionError
         else
           (case max_conf_loop None 0 (detections r) of
              (None, nNegative) \<Rightarrow> Inl TypeError
            | (Some maxP, nNegative) \<Rightarrow>
                if \<bar>maxP - maxPOriginal\<bar> > 0.00000001 then
                  (if \<not> maxP < maxPOriginal then Inl AssertionError
                   else if \<not> nNegative > 0 then Inl AssertionError
                   else Inr (r\<lparr>max_detection_conf := maxP\<rparr>))
                else Inr r)))"

fun update_max_confs :: "row list \<Rightarrow> error + row list" where
  "update_max_confs [] = Inr []"
| "update_max_confs (r # rs) =
     (case update_max_conf r of
        Inl e \<Rightarrow> Inl e
      | Inr r' \<Rightarrow>
          (case update_max_confs rs of
             Inl e \<Rightarrow> Inl e
           | Inr rs' \<Rightarrow> Inr (r' # rs')))"

definition update_detection_table ::
  "env \<Rightarrow> RepeatDetectionOptions \<Rightarrow> (string \<rightharpoonup> nat) \<Rightarrow> DetectionLocation list list \<Rightarrow>
   row list \<Rightarrow> error + row list" where
  "update_detection_table E opts filenameToRow suspiciousDetections detectionResults =
     (case negate_suspicious E opts filenameToRow detectionResults suspiciousDetections of
        Inl e \<Rightarrow> Inl e
      | Inr table' \<Rightarrow> update_max_confs table')"

subsection \<open>The filtering folder\<close>

text \<open>\<^verbatim>\<open>'{:0>4d}'.format(n)\<close> for a natural number: its decimal digits, padded with
  zeros on the left to four characters.\<close>

definition digit_char :: "nat \<Rightarrow> char" where
  "digit_char d = char_of (of_char (CHR ''0'') + d)"

function str_nat :: "nat \<Rightarrow> string" where
  "str_nat n = (if n < 10 then [digit_char n] else str_nat (n div 10) @ [digit_char (n mod 10)])"
  by pat_completeness auto
termination
  by (relation "measure id") auto

declare str_nat.simps [simp del]

definition format_04d :: "nat \<Rightarrow> string" where
  "format_04d n = (let s = str_nat n in replicate (4 - length s) (CHR ''0'') @ s)"

text \<open>The loop over the suspicious locations of directory \<^verbatim>\<open>iDir\<close>: the first
  instance's image must exist, and the location gets its sample file name.\<close>

fun write_samples_dir ::
  "env \<Rightarrow> RepeatDetectionOptions \<Rightarrow> nat \<Rightarrow> nat \<Rightarrow> DetectionLocation list \<Rightarrow>
   error + DetectionLocation list" where
  "write_samples_dir E opts iDir iDet [] = Inr []"
| "write_samples_dir E opts iDir iDet (d # ds) =
     (case instances d of
        [] \<Rightarrow> Inl IndexError
      | instance # _ \<Rightarrow>
          (let relativePath = filename instance;
               inputFullPath = path_join E (imageBase opts) relativePath in
           if \<not> isfile E inputFullPath then Inl AssertionError
           else
             (let outputRelativePath =
                    ''dir'' @ format_04d iDir @ ''_det'' @ format_04d iDet @ ''.jpg''
              in case write_samples_dir E opts iDir (Suc iDet) ds of
                   Inl e \<Rightarrow> Inl e
                 | Inr ds' \<Rightarrow>
                     Inr (d\<lparr>sampleImageRelativeFileName := outputRelativePath\<rparr> # ds'))))"

fun write_samples ::
  "env \<Rightarrow> RepeatDetectionOptions \<Rightarrow> nat \<Rightarrow> DetectionLocation list list \<Rightarrow>
   error + DetectionLocation list list" where
  "write_samples E opts iDir [] = Inr []"
| "write_samples E opts iDir (suspiciousDetectionsThisDir # rest) =
     (case write_samples_dir E opts iDir 0 suspiciousDetectionsThisDir of
        Inl e \<Rightarrow> Inl e
      | Inr ds' \<Rightarrow>
          (case write_samples E opts (Suc iDir) rest of
             Inl e \<Rightarrow> Inl e
           | Inr rest' \<Rightarrow> Inr (ds' # rest')))"

subsection \<open>find_repeat_detections\<close>

text \<open>class RepeatDetectionResults: the fields the analysis fills.\<close>

record RepeatDetectionResults =
  detectionResults :: "row list"
  rowsByDirectory :: "(string \<times> row list) list"
  filenameToRow :: "string \<rightharpoonup> nat"
  suspiciousDetections :: "DetectionLocation list list"

text \<open>The rows filed in \<^verbatim>\<open>rowsByDirectory\<close> are built from the rows of the table:
  the cell \<^verbatim>\<open>detections\<close> of a grouped row is the very list of dicts of the table's
  row, so the negations of the table update show through it, while its
  \<^verbatim>\<open>max_detection_conf\<close> is a copy that \<^verbatim>\<open>detectionResults.at[...]\<close> does not
  reach. \<open>shared_detections\<close> reads a grouped row after the update: its detections
  are those of the table's row of the same file.\<close>

definition shared_detections :: "(string \<rightharpoonup> nat) \<Rightarrow> row list \<Rightarrow> row \<Rightarrow> row" where
  "shared_detections f2r table r =
     (case f2r (row_file r) of
        None \<Rightarrow> r
      | Some iRow \<Rightarrow>
          if iRow < length table then r\<lparr>detections := detections (table ! iRow)\<rparr> else r)"

definition shared_groups ::
  "(string \<rightharpoonup> nat) \<Rightarrow> row list \<Rightarrow> (string \<times> row list) list \<Rightarrow>
   (string \<times> row list) list" where
  "shared_groups f2r table rbd =
     map (\<lambda>(dirName, rows). (dirName, map (shared_detections f2r table) rows)) rbd"

text \<open>The main function, from the loaded table on: \<open>table\<close> is what
  \<^verbatim>\<open>load_api_results\<close> returned. The groups are searched before the table is
  updated; the groups returned are read after it.\<close>

definition find_repeat_detections ::
  "env \<Rightarrow> RepeatDetectionOptions \<Rightarrow> row list \<Rightarrow> error + RepeatDetectionResults" where
  "find_repeat_detections E opts table =
     (case separate_files E opts table of
        Inl e \<Rightarrow> Inl e
      | Inr (rbd, f2r) \<Rightarrow>
          (let dirs = dirsToSearch opts rbd in
           case (if length (filterFileToLoad opts) = 0
                 then (case find_all_matches E opts rbd dirs of
                         Inl e \<Rightarrow> Inl e
                       | Inr allCandidateDetections \<Rightarrow>
                           Inr (find_suspicious opts allCandidateDetections))
                 else load_suspicious E opts dirs) of
             Inl e \<Rightarrow> Inl e
           | Inr susp \<Rightarrow>
               (case update_detection_table E opts f2r susp table of
                  Inl e \<Rightarrow> Inl e
                | Inr table' \<Rightarrow>
                    (case (if bWriteFilteringFolder opts
                           then write_samples E opts 0 susp else Inr susp) of
                       Inl e \<Rightarrow> Inl e
                     | Inr susp' \<Rightarrow>
                         Inr \<lparr>detectionResults = table',
                              rowsByDirectory = shared_groups f2r table' rbd,
                              filenameToRow = f2r, suspiciousDetections = susp'\<rparr>))))"

section \<open>Environments, predicates and data for concrete runs\<close>

text \<open>\<^verbatim>\<open>os.path.dirname\<close> of the Python standard library on POSIX: the path up to
  its last slash, without trailing slashes unless it consists of slashes only.\<close>

definition posix_dirname :: "string \<Rightarrow> string" where
  "posix_dirname p =
     (let head = rev (dropWhile (\<lambda>c. c \<noteq> CHR ''/'') (rev p))
      in if head \<noteq> [] \<and> \<not> list_all (\<lambda>c. c = CHR ''/'') head
         then rev (dropWhile (\<lambda>c. c = CHR ''/'') (rev head)) else head)"

text \<open>Modelled from the spec: \<^verbatim>\<open>ct_utils.get_iou\<close> is not among the sources. The
  overlap ratio of two boxes \<^verbatim>\<open>[x_min, y_min, w, h]\<close>: the area of the intersection over
  area(A) + area(B) - intersection(A, B). It is used for concrete runs only; the
  analysis takes the function from its environment.\<close>

definition get_iou_spec :: "real list \<Rightarrow> real list \<Rightarrow> error + real" where
  "get_iou_spec a b =
     (if length a < 4 \<or> length b < 4 then Inl IndexError
      else
        (let iw = max 0 (min (a ! 0 + a ! 2) (b ! 0 + b ! 2) - max (a ! 0) (b ! 0));
             ih = max 0 (min (a ! 1 + a ! 3) (b ! 1 + b ! 3) - max (a ! 1) (b ! 1));
             inter = iw * ih;
             union = a ! 2 * a ! 3 + b ! 2 * b ! 3 - inter
         in if union = 0 then Inl ZeroDivisionError else Inr (inter / union)))"

text \<open>\<^verbatim>\<open>os.path.join\<close> of two components on POSIX.\<close>

definition posix_join :: "string \<Rightarrow> string \<Rightarrow> string" where
  "posix_join a b =
     (if b \<noteq> [] \<and> hd b = CHR ''/'' then b
      else if a = [] \<or> last a = CHR ''/'' then a @ b
      else a @ ''/'' @ b)"

text \<open>An environment for concrete runs: every file is an image file and exists.\<close>

definition test_env :: env where
  "test_env =
     \<lparr>get_iou = get_iou_spec, is_image_file = (\<lambda>f. True), dirname = posix_dirname,
      path_join = posix_join, isfile = (\<lambda>f. True),
      py_int = (\<lambda>s. Inl ValueError), decode_filter_file = (\<lambda>f. []),
      read_file_list = (\<lambda>f. [])\<rparr>"

text \<open>The test \<^verbatim>\<open>iou >= options.iouThreshold\<close> of a box against a candidate, as a
  predicate: it holds when \<^verbatim>\<open>get_iou\<close> returns a value that reaches the threshold.\<close>

definition iou_matches :: "env \<Rightarrow> RepeatDetectionOptions \<Rightarrow> real list \<Rightarrow> DetectionLocation \<Rightarrow> bool" where
  "iou_matches E opts bb c =
     (case get_iou E bb (loc_bbox c) of Inl e \<Rightarrow> False | Inr iou \<Rightarrow> iou \<ge> iouThreshold opts)"

definition sample_detection :: detection where
  "sample_detection = \<lparr>category = ''1'', conf = 0.9, bbox = [0.1, 0.1, 0.05, 0.05]\<rparr>"

definition sample_row :: "string \<Rightarrow> row" where
  "sample_row f = \<lparr>row_file = f, max_detection_conf = 0.9, detections = [sample_detection]\<rparr>"

definition sample_instance :: "string \<Rightarrow> IndexedDetection" where
  "sample_instance f =
     \<lparr>iDetection = 0, filename = f, inst_bbox = [0.1, 0.1, 0.05, 0.05],
      confidence = 0.9, inst_category = ''1''\<rparr>"

definition sample_location :: "string list \<Rightarrow> DetectionLocation" where
  "sample_location fs =
     \<lparr>instances = map sample_instance fs, loc_bbox = [0.1, 0.1, 0.05, 0.05],
      relativeDir = ''A'', sampleImageRelativeFileName = []\<rparr>"

definition large_detection :: detection where
  "large_detection = \<lparr>category = ''1'', conf = 0.9, bbox = [0.25, 0.25, 0.4, 0.5]\<rparr>"

text \<open>The validity test of the loading loop on one location, as a predicate.\<close>

definition is_valid_location :: "env \<Rightarrow> string \<Rightarrow> string list option \<Rightarrow> DetectionLocation \<Rightarrow> bool" where
  "is_valid_location E filteringBaseDir fileList d =
     (case fileList of
        Some fl \<Rightarrow> sampleImageRelativeFileName d \<in> set fl
      | None \<Rightarrow> isfile E (path_join E filteringBaseDir (sampleImageRelativeFileName d)))"

text \<open>What the first pass of update_detection_table may do to a detection: leave it, or
  negate a confidence that is not negative; and to a row: that, for each detection.\<close>

definition suppressed :: "detection \<Rightarrow> detection \<Rightarrow> bool" where
  "suppressed d d' \<longleftrightarrow> d' = d \<or> (0 \<le> conf d \<and> d' = d\<lparr>conf := - conf d\<rparr>)"

definition row_suppressed :: "row \<Rightarrow> row \<Rightarrow> bool" where
  "row_suppressed r r' \<longleftrightarrow>
     row_file r' = row_file r \<and> max_detection_conf r' = max_detection_conf r
     \<and> list_all2 suppressed (detections r) (detections r')"

text \<open>Data for concrete runs of the loading path: a filtering file with two
  locations, of which the first sample image is on disk and the second is in the
  keep-list.\<close>

definition reload_env :: env where
  "reload_env =
     test_env\<lparr>
       isfile := (\<lambda>p. p = ''out/dir0000_det0000.jpg''),
       decode_filter_file := (\<lambda>f.
         [[(sample_location [''A/0.jpg''])
             \<lparr>sampleImageRelativeFileName := ''dir0000_det0000.jpg''\<rparr>,
           (sample_location [''A/1.jpg''])
             \<lparr>sampleImageRelativeFileName := ''dir0000_det0001.jpg''\<rparr>]]),
       read_file_list := (\<lambda>f. [''dir0000_det0001.jpg''])\<rparr>"

definition reload_options :: RepeatDetectionOptions where
  "reload_options = default_options\<lparr>filterFileToLoad := ''out/detectionIndex.json''\<rparr>"

text \<open>The rows filed under a directory key in \<^verbatim>\<open>rowsByDirectory\<close> (none for a key
  that is absent).\<close>

definition rows_of :: "(string \<times> row list) list \<Rightarrow> string \<Rightarrow> row list" where
  "rows_of rbd d = (case map_of rbd d of None \<Rightarrow> [] | Some rs \<Rightarrow> rs)"

text \<open>All instances of the candidates come from files of the set \<open>S\<close>.\<close>

definition files_in :: "string set \<Rightarrow> DetectionLocation list \<Rightarrow> bool" where
  "files_in S cands \<longleftrightarrow> (\<forall>c\<in>set cands. \<forall>inst\<in>set (instances c). filename inst \<in> S)"

text \<open>The scenario of twenty images in one directory \<^verbatim>\<open>A\<close>, each with one detection
  at box (0.1, 0.1, 0.05, 0.05) with confidence 0.9 and category "1", and its options.\<close>

definition scenario_files :: "string list" where
  "scenario_files =
     [''A/00.jpg'', ''A/01.jpg'', ''A/02.jpg'', ''A/03.jpg'', ''A/04.jpg'',
      ''A/05.jpg'', ''A/06.jpg'', ''A/07.jpg'', ''A/08.jpg'', ''A/09.jpg'',
      ''A/10.jpg'', ''A/11.jpg'', ''A/12.jpg'', ''A/13.jpg'', ''A/14.jpg'',
      ''A/15.jpg'', ''A/16.jpg'', ''A/17.jpg'', ''A/18.jpg'', ''A/19.jpg'']"

definition scenario_table :: "row list" where
  "scenario_table = map sample_row scenario_files"

definition scenario_options :: RepeatDetectionOptions where
  "scenario_options =
     default_options\<lparr>occurrenceThreshold := 15, iouThreshold := 0.9, confidenceMin := 0.85\<rparr>"

text \<open>What is read off a run: the number of instances of each suspicious location, by
  directory, and the confidences of the detections of each row of the table.\<close>

definition run_summary ::
  "error + RepeatDetectionResults \<Rightarrow> error + nat list list \<times> real list list" where
  "run_summary result =
     (case result of
        Inl e \<Rightarrow> Inl e
      | Inr res \<Rightarrow>
          Inr (map (map (\<lambda>c. length (instances c))) (suspiciousDetections res),
               map (\<lambda>r. map conf (detections r)) (detectionResults res)))"

text \<open>Two directories of two images each, with the same repeated detection, and an
  occurrence threshold of two.\<close>

definition two_dir_table :: "row list" where
  "two_dir_table = map sample_row [''A/0.jpg'', ''A/1.jpg'', ''B/0.jpg'', ''B/1.jpg'']"

definition two_dir_options :: RepeatDetectionOptions where
  "two_dir_options = default_options\<lparr>occurrenceThreshold := 2\<rparr>"

section \<open>Properties\<close>

subsection \<open>Clustering\<close>

lemma suspicious_this_dir_filter:
  "suspicious_this_dir opts cs =
     filter (\<lambda>c. occurrenceThreshold opts \<le> int (length (instances c))) cs"
  by (induction cs) (auto simp: Let_def)

lemma match_candidates_result:
  assumes "\<forall>c\<in>set cs. \<exists>v. get_iou E bb (loc_bbox c) = Inr v"
  shows "match_candidates E opts bb inst b cs =
     Inr (b \<or> (\<exists>c\<in>set cs. iou_matches E opts bb c),
          map (\<lambda>c. if iou_matches E opts bb c
                    then c\<lparr>instances := instances c @ [inst]\<rparr> else c) cs)"
  using assms
proof (induction cs arbitrary: b)
  case Nil
  then show ?case by simp
next
  case (Cons c cs)
  from Cons.prems obtain v where v: "get_iou E bb (loc_bbox c) = Inr v" by auto
  from Cons.prems have rest: "\<forall>c\<in>set cs. \<exists>v. get_iou E bb (loc_bbox c) = Inr v" by simp
  show ?case
    using v Cons.IH [OF rest] by (simp add: iou_matches_def)
qed




text \<open>C6, as the claim states it, fails: a detection of width 0.4 and height 0.5 has
  area exactly \<^verbatim>\<open>maxSuspiciousDetectionSize\<close> = 0.2 and founds a candidate.\<close>

theorem area_equal_to_limit_counterexample:
  "bbox large_detection ! 3 * bbox large_detection ! 2
     = maxSuspiciousDetectionSize default_options
   \<and> process_detection test_env default_options ''A'' (sample_row ''A/0.jpg'') [] 0
       large_detection
     = Inr [\<lparr>instances =
               [\<lparr>iDetection = 0, filename = ''A/0.jpg'', inst_bbox = [0.25, 0.25, 0.4, 0.5],
                 confidence = 0.9, inst_category = ''1''\<rparr>],
             loc_bbox = [0.25, 0.25, 0.4, 0.5], relativeDir = ''A'',
             sampleImageRelativeFileName = []\<rparr>]"
  by (simp add: process_detection_def large_detection_def default_options_def
      sample_row_def is_excluded_def new_location_def test_env_def Let_def)

text \<open>C6, amended. A detection that passes the confidence and category filters is
  excluded from candidacy (the candidate list is returned unchanged) when its area
  \<^verbatim>\<open>h * w\<close> is strictly greater than \<^verbatim>\<open>maxSuspiciousDetectionSize\<close>; with an area equal
  to that value, or below it, it is eligible: it becomes an instance of some candidate
  of the resulting list.\<close>

theorem area_filter_boundary:
  assumes "0 \<le> conf det" and "conf det \<le> 1"
    and "confidenceMin opts \<le> conf det" and "conf det \<le> confidenceMax opts"
    and "is_excluded E opts det = Inr False"
    and "4 \<le> length (bbox det)"
    and "0 \<le> bbox det ! 3 * bbox det ! 2" and "bbox det ! 3 * bbox det ! 2 \<le> 1"
    and "\<forall>c\<in>set cands. \<exists>v. get_iou E (bbox det) (loc_bbox c) = Inr v"
    and "inst = \<lparr>iDetection = iDet, filename = row_file r, inst_bbox = bbox det,
                 confidence = conf det, inst_category = category det\<rparr>"
  shows "(bbox det ! 3 * bbox det ! 2 > maxSuspiciousDetectionSize opts \<longrightarrow>
            process_detection E opts dirName r cands iDet det = Inr cands)
       \<and> (bbox det ! 3 * bbox det ! 2 \<le> maxSuspiciousDetectionSize opts \<longrightarrow>
            (\<exists>cands'. process_detection E opts dirName r cands iDet det = Inr cands'
               \<and> (\<exists>c\<in>set cands'. inst \<in> set (instances c))))"
proof (intro conjI impI)
  assume "bbox det ! 3 * bbox det ! 2 > maxSuspiciousDetectionSize opts"
  then show "process_detection E opts dirName r cands iDet det = Inr cands"
    using assms(1-8) by (simp add: process_detection_def Let_def)
next
  assume le: "bbox det ! 3 * bbox det ! 2 \<le> maxSuspiciousDetectionSize opts"
  let ?join = "\<lambda>c. if iou_matches E opts (bbox det) c
                    then c\<lparr>instances := instances c @ [inst]\<rparr> else c"
  let ?res = "map ?join cands
          @ (if \<exists>c\<in>set cands. iou_matches E opts (bbox det) c then []
             else [new_location inst det dirName])"
  have run: "process_detection E opts dirName r cands iDet det = Inr ?res"
    using assms(1-8,10) le match_candidates_result [OF assms(9), of opts inst False]
    by (simp add: process_detection_def Let_def)
  have "\<exists>c\<in>set ?res. inst \<in> set (instances c)"
  proof (cases "\<exists>c\<in>set cands. iou_matches E opts (bbox det) c")
    case True
    then obtain c where "c \<in> set cands" "iou_matches E opts (bbox det) c" by blast
    then have "?join c \<in> set ?res" "inst \<in> set (instances (?join c))" by auto
    then show ?thesis by blast
  next
    case False
    then show ?thesis by (simp add: new_location_def)
  qed
  with run show "\<exists>cands'. process_detection E opts dirName r cands iDet det = Inr cands'
               \<and> (\<exists>c\<in>set cands'. inst \<in> set (instances c))"
    by blast
qed

theorem area_filter_boundary_witness:
  "process_detection test_env default_options ''A'' (sample_row ''A/0.jpg'') [] 0
     (large_detection\<lparr>bbox := [0.25, 0.25, 0.5, 0.5]\<rparr>) = Inr []
   \<and> (\<exists>cands'. process_detection test_env default_options ''A'' (sample_row ''A/0.jpg'') [] 0
         large_detection = Inr cands'
       \<and> (\<exists>c\<in>set cands'.
             \<lparr>iDetection = 0, filename = ''A/0.jpg'', inst_bbox = [0.25, 0.25, 0.4, 0.5],
              confidence = 0.9, inst_category = ''1''\<rparr> \<in> set (instances c)))"
  using area_filter_boundary
    [of "large_detection\<lparr>bbox := [0.25, 0.25, 0.5, 0.5]\<rparr>" default_options test_env "[]"
        "\<lparr>iDetection = 0, filename = ''A/0.jpg'', inst_bbox = [0.25, 0.25, 0.5, 0.5],
          confidence = 0.9, inst_category = ''1''\<rparr>" 0 "sample_row ''A/0.jpg''" "''A''"]
    area_filter_boundary
    [of large_detection default_options test_env "[]"
        "\<lparr>iDetection = 0, filename = ''A/0.jpg'', inst_bbox = [0.25, 0.25, 0.4, 0.5],
          confidence = 0.9, inst_category = ''1''\<rparr>" 0 "sample_row ''A/0.jpg''" "''A''"]
  by (simp add: large_detection_def default_options_def test_env_def sample_row_def
      is_excluded_def)

subsection \<open>Flagging suspicious locations\<close>

text \<open>C5. In every directory searched, the suspicious locations are the candidates
  with \<^verbatim>\<open>len(instances) >= occurrenceThreshold\<close>, in their order: a candidate of the
  directory is flagged if and only if it has at least \<^verbatim>\<open>occurrenceThreshold\<close> instances;
  one with exactly \<^verbatim>\<open>occurrenceThreshold - 1\<close> instances is not flagged, and one with
  exactly \<^verbatim>\<open>occurrenceThreshold\<close> instances is.\<close>

theorem occurrence_threshold_boundary:
  "find_suspicious opts allCands =
     map (filter (\<lambda>c. occurrenceThreshold opts \<le> int (length (instances c)))) allCands
   \<and> (\<forall>iDir < length allCands. \<forall>c \<in> set (allCands ! iDir).
        (c \<in> set (find_suspicious opts allCands ! iDir)
           \<longleftrightarrow> int (length (instances c)) \<ge> occurrenceThreshold opts)
      \<and> (int (length (instances c)) = occurrenceThreshold opts - 1
           \<longrightarrow> c \<notin> set (find_suspicious opts allCands ! iDir))
      \<and> (int (length (instances c)) = occurrenceThreshold opts
           \<longrightarrow> c \<in> set (find_suspicious opts allCands ! iDir)))"
proof -
  have eq: "find_suspicious opts allCands =
     map (filter (\<lambda>c. occurrenceThreshold opts \<le> int (length (instances c)))) allCands"
    by (simp add: find_suspicious_def suspicious_this_dir_filter cong: map_cong)
  show ?thesis
    unfolding eq by auto
qed

theorem occurrence_threshold_boundary_witness:
  "sample_location [''A/1'', ''A/2''] \<in>
     set (find_suspicious (default_options\<lparr>occurrenceThreshold := 2\<rparr>)
            [[sample_location [''A/0''], sample_location [''A/1'', ''A/2'']]] ! 0)
   \<and> sample_location [''A/0''] \<notin>
     set (find_suspicious (default_options\<lparr>occurrenceThreshold := 2\<rparr>)
            [[sample_location [''A/0''], sample_location [''A/1'', ''A/2'']]] ! 0)"
  using occurrence_threshold_boundary
    [of "default_options\<lparr>occurrenceThreshold := 2\<rparr>"
        "[[sample_location [''A/0''], sample_location [''A/1'', ''A/2'']]]"]
  by (simp add: sample_location_def)

subsection \<open>Loading from a filtering file\<close>

lemma mark_invalid_flags:
  "i + length ds \<le> length bv \<Longrightarrow>
   mark_invalid E base fileList bv i ds =
     take i bv
     @ map (\<lambda>(b, d). b \<and> is_valid_location E base fileList d) (zip (drop i bv) ds)
     @ drop (i + length ds) bv"
proof (induction ds arbitrary: bv i)
  case Nil
  then show ?case by simp
next
  case (Cons d ds)
  then have i: "i < length bv" by simp
  have dr: "drop i bv = bv ! i # drop (Suc i) bv"
    using i by (simp add: Cons_nth_drop_Suc)
  have IH1: "mark_invalid E base fileList (bv[i := False]) (Suc i) ds =
     take (Suc i) (bv[i := False])
     @ map (\<lambda>(b, d). b \<and> is_valid_location E base fileList d)
         (zip (drop (Suc i) (bv[i := False])) ds)
     @ drop (Suc i + length ds) (bv[i := False])"
    using Cons.prems by (intro Cons.IH) simp
  have IH2: "mark_invalid E base fileList bv (Suc i) ds =
     take (Suc i) bv
     @ map (\<lambda>(b, d). b \<and> is_valid_location E base fileList d) (zip (drop (Suc i) bv) ds)
     @ drop (Suc i + length ds) bv"
    using Cons.prems by (intro Cons.IH) simp
  have t1: "take (Suc i) (bv[i := False]) = take i bv @ [False]"
    using i by (simp add: take_Suc_conv_app_nth)
  have t2: "take (Suc i) bv = take i bv @ [bv ! i]"
    using i by (simp add: take_Suc_conv_app_nth)
  show ?case
  proof (cases "is_valid_location E base fileList d")
    case True
    then have "mark_invalid E base fileList bv i (d # ds) =
        mark_invalid E base fileList bv (Suc i) ds"
      by (simp add: is_valid_location_def split: option.splits)
    then show ?thesis
      using True by (simp add: IH2 t2 dr)
  next
    case False
    then have "mark_invalid E base fileList bv i (d # ds) =
        mark_invalid E base fileList (bv[i := False]) (Suc i) ds"
      by (simp add: is_valid_location_def split: option.splits)
    then show ?thesis
      using False by (simp add: IH1 t1 dr)
  qed
qed

lemma compress_map_filter: "compress xs (map P xs) = filter P xs"
  by (induction xs) auto

lemma filter_loaded_dir_filter:
  "filter_loaded_dir E base fileList dets = filter (is_valid_location E base fileList) dets"
proof -
  have "map (\<lambda>(b, d). b \<and> is_valid_location E base fileList d)
          (zip (replicate (length dets) True) dets)
        = map (is_valid_location E base fileList) dets"
    by (induction dets) auto
  then show ?thesis
    by (simp add: filter_loaded_dir_def mark_invalid_flags compress_map_filter)
qed

text \<open>C8. When the suspicious locations are loaded from a filtering file (and the file
  has one list for each directory searched), a location is kept if and only if a keep-list
  was given and the location's \<^verbatim>\<open>sampleImageRelativeFileName\<close> is in it, or no keep-list
  was given and its sample image file exists in the folder of the filtering file. The
  locations kept are the loaded ones, unchanged and in their order; the others are
  dropped whole.\<close>

theorem reload_mode_filtering:
  assumes "length (decode_filter_file E (filterFileToLoad opts)) = length dirs"
  shows "load_suspicious E opts dirs =
     Inr (map (filter (\<lambda>d.
                (\<exists>f. filteredFileListToLoad opts = Some f
                     \<and> sampleImageRelativeFileName d \<in> set (read_file_list E f))
              \<or> (filteredFileListToLoad opts = None
                   \<and> isfile E (path_join E (dirname E (filterFileToLoad opts))
                                 (sampleImageRelativeFileName d)))))
            (decode_filter_file E (filterFileToLoad opts)))"
proof -
  have "is_valid_location E (dirname E (filterFileToLoad opts))
          (case filteredFileListToLoad opts of None \<Rightarrow> None
           | Some f \<Rightarrow> Some (read_file_list E f))
        = (\<lambda>d. (\<exists>f. filteredFileListToLoad opts = Some f
                     \<and> sampleImageRelativeFileName d \<in> set (read_file_list E f))
              \<or> (filteredFileListToLoad opts = None
                   \<and> isfile E (path_join E (dirname E (filterFileToLoad opts))
                                 (sampleImageRelativeFileName d))))"
    by (auto simp: is_valid_location_def fun_eq_iff split: option.splits)
  then show ?thesis
    using assms
    by (simp add: load_suspicious_def Let_def filter_loaded_dir_filter cong: map_cong)
qed

theorem reload_mode_filtering_witness:
  "load_suspicious reload_env reload_options [''A''] =
     Inr [[(sample_location [''A/0.jpg''])
             \<lparr>sampleImageRelativeFileName := ''dir0000_det0000.jpg''\<rparr>]]
   \<and> load_suspicious reload_env
       (reload_options\<lparr>filteredFileListToLoad := Some ''keep.txt''\<rparr>) [''A''] =
     Inr [[(sample_location [''A/1.jpg''])
             \<lparr>sampleImageRelativeFileName := ''dir0000_det0001.jpg''\<rparr>]]"
  using reload_mode_filtering [of reload_env reload_options "[''A'']"]
    reload_mode_filtering
      [of reload_env "reload_options\<lparr>filteredFileListToLoad := Some ''keep.txt''\<rparr>" "[''A'']"]
  by (simp add: reload_env_def reload_options_def default_options_def test_env_def
      posix_dirname_def posix_join_def sample_location_def)

subsection \<open>Updating the detection table\<close>

lemma suppressed_refl: "suppressed d d"
  by (simp add: suppressed_def)

lemma suppressed_trans: "suppressed a b \<Longrightarrow> suppressed b c \<Longrightarrow> suppressed a c"
  by (auto simp: suppressed_def)

lemma row_suppressed_refl: "row_suppressed r r"
  by (simp add: row_suppressed_def list_all2_refl suppressed_refl)

lemma row_suppressed_trans:
  "row_suppressed a b \<Longrightarrow> row_suppressed b c \<Longrightarrow> row_suppressed a c"
  unfolding row_suppressed_def
  using list_all2_trans [of suppressed suppressed suppressed] suppressed_trans
  by (metis (no_types, lifting))

lemma table_suppressed_refl: "list_all2 row_suppressed t t"
  by (simp add: list_all2_refl row_suppressed_refl)

lemma table_suppressed_trans:
  "list_all2 row_suppressed a b \<Longrightarrow> list_all2 row_suppressed b c \<Longrightarrow>
   list_all2 row_suppressed a c"
  using list_all2_trans [of row_suppressed row_suppressed row_suppressed] row_suppressed_trans
  by blast

lemma py_index_less: "py_index xs i = Some j \<Longrightarrow> j < length xs"
  by (auto simp: py_index_def Let_def split: if_splits)

lemma negate_instance_result:
  assumes "negate_instance E opts f2r locBbox table inst = Inr table'"
  shows "\<exists>iRow j. f2r (filename inst) = Some iRow \<and> iRow < length table
     \<and> py_index (detections (table ! iRow)) (iDetection inst) = Some j
     \<and> table' =
      (if conf (detections (table ! iRow) ! j) \<ge> 0
       then table[iRow := (table ! iRow)\<lparr>detections :=
              (detections (table ! iRow))[j := (detections (table ! iRow) ! j)
                 \<lparr>conf := - conf (detections (table ! iRow) ! j)\<rparr>]\<rparr>]
       else table)"
proof (cases "get_iou E (inst_bbox inst) locBbox")
  case (Inl e)
  with assms show ?thesis by (simp add: negate_instance_def)
next
  case (Inr v)
  note v = this
  show ?thesis
  proof (cases "f2r (filename inst)")
    case None
    with assms v show ?thesis
      by (simp add: negate_instance_def split: if_splits)
  next
    case (Some iRow)
    note iRow = this
    show ?thesis
    proof (cases "py_index (detections (table ! iRow)) (iDetection inst)")
      case None
      with assms v iRow show ?thesis
        by (simp add: negate_instance_def split: if_splits)
    next
      case (Some j)
      with assms v iRow show ?thesis
        by (simp add: negate_instance_def Let_def split: if_splits)
    qed
  qed
qed

lemma negate_instance_suppressed:
  assumes "negate_instance E opts f2r locBbox table inst = Inr table'"
  shows "list_all2 row_suppressed table table'"
proof -
  from negate_instance_result [OF assms] obtain iRow j where
    iRow: "f2r (filename inst) = Some iRow" "iRow < length table"
    and j: "py_index (detections (table ! iRow)) (iDetection inst) = Some j"
    and res: "table' =
      (if conf (detections (table ! iRow) ! j) \<ge> 0
       then table[iRow := (table ! iRow)\<lparr>detections :=
              (detections (table ! iRow))[j := (detections (table ! iRow) ! j)
                 \<lparr>conf := - conf (detections (table ! iRow) ! j)\<rparr>]\<rparr>]
       else table)"
    by blast
  let ?r = "table ! iRow"
  let ?d = "detections ?r ! j"
  show ?thesis
  proof (cases "conf ?d \<ge> 0")
    case False
    with res show ?thesis by (simp add: table_suppressed_refl)
  next
    case True
    have "suppressed ?d (?d\<lparr>conf := - conf ?d\<rparr>)"
      using True by (simp add: suppressed_def)
    then have "list_all2 suppressed ((detections ?r)[j := ?d])
        ((detections ?r)[j := ?d\<lparr>conf := - conf ?d\<rparr>])"
      by (intro list_all2_update_cong list_all2_refl suppressed_refl)
    then have "row_suppressed ?r (?r\<lparr>detections := (detections ?r)[j := ?d\<lparr>conf := - conf ?d\<rparr>]\<rparr>)"
      by (simp add: row_suppressed_def)
    then have "list_all2 row_suppressed (table[iRow := ?r])
        (table[iRow := ?r\<lparr>detections := (detections ?r)[j := ?d\<lparr>conf := - conf ?d\<rparr>]\<rparr>])"
      by (intro list_all2_update_cong table_suppressed_refl)
    with res True show ?thesis by simp
  qed
qed

lemma negate_instances_suppressed:
  "negate_instances E opts f2r locBbox table insts = Inr table' \<Longrightarrow>
   list_all2 row_suppressed table table'"
proof (induction insts arbitrary: table)
  case Nil
  then show ?case by (simp add: table_suppressed_refl)
next
  case (Cons a insts)
  then show ?case
    by (auto split: sum.splits
        intro: table_suppressed_trans negate_instance_suppressed)
qed

lemma negate_events_suppressed:
  "negate_events E opts f2r table evs = Inr table' \<Longrightarrow>
   list_all2 row_suppressed table table'"
proof (induction evs arbitrary: table)
  case Nil
  then show ?case by (simp add: table_suppressed_refl)
next
  case (Cons a evs)
  then show ?case
    by (auto split: sum.splits
        intro: table_suppressed_trans negate_instances_suppressed)
qed

lemma negate_suspicious_suppressed:
  "negate_suspicious E opts f2r table susp = Inr table' \<Longrightarrow>
   list_all2 row_suppressed table table'"
proof (induction susp arbitrary: table)
  case Nil
  then show ?case by (simp add: table_suppressed_refl)
next
  case (Cons a susp)
  then show ?case
    by (auto split: sum.splits
        intro: table_suppressed_trans negate_events_suppressed)
qed

text \<open>C3. In the first pass of update_detection_table, a detection's confidence is
  negated only while it is not negative: a detection whose confidence is already
  negative is left as it is, whatever the suspicious locations; every other detection
  is left as it is or has its confidence negated, and nothing else changed. So no
  confidence that was not positive is positive afterwards.\<close>

theorem suppression_idempotent:
  assumes "negate_suspicious E opts f2r table susp = Inr table'"
  shows "length table' = length table
    \<and> (\<forall>i < length table.
         length (detections (table' ! i)) = length (detections (table ! i))
         \<and> (\<forall>j < length (detections (table ! i)).
              (conf (detections (table ! i) ! j) < 0
                 \<longrightarrow> detections (table' ! i) ! j = detections (table ! i) ! j)
            \<and> (conf (detections (table ! i) ! j) \<ge> 0
                 \<longrightarrow> detections (table' ! i) ! j = detections (table ! i) ! j
                   \<or> detections (table' ! i) ! j
                       = (detections (table ! i) ! j)
                           \<lparr>conf := - conf (detections (table ! i) ! j)\<rparr>)
            \<and> (conf (detections (table' ! i) ! j) > 0
                 \<longrightarrow> conf (detections (table ! i) ! j) > 0)))"
proof -
  have rel: "list_all2 row_suppressed table table'"
    using assms by (rule negate_suspicious_suppressed)
  then have len: "length table' = length table"
    by (simp add: list_all2_lengthD)
  have "\<forall>i < length table.
         length (detections (table' ! i)) = length (detections (table ! i))
         \<and> (\<forall>j < length (detections (table ! i)).
              suppressed (detections (table ! i) ! j) (detections (table' ! i) ! j))"
  proof (intro allI impI)
    fix i assume "i < length table"
    with rel have "row_suppressed (table ! i) (table' ! i)"
      by (simp add: list_all2_nthD)
    then have l: "list_all2 suppressed (detections (table ! i)) (detections (table' ! i))"
      by (simp add: row_suppressed_def)
    then show "length (detections (table' ! i)) = length (detections (table ! i))
         \<and> (\<forall>j < length (detections (table ! i)).
              suppressed (detections (table ! i) ! j) (detections (table' ! i) ! j))"
      by (simp add: list_all2_lengthD list_all2_nthD)
  qed
  then have el: "\<And>i j. i < length table \<Longrightarrow> j < length (detections (table ! i)) \<Longrightarrow>
      suppressed (detections (table ! i) ! j) (detections (table' ! i) ! j)"
    and ln: "\<And>i. i < length table \<Longrightarrow>
      length (detections (table' ! i)) = length (detections (table ! i))"
    by blast+
  have "(conf (detections (table ! i) ! j) < 0
                 \<longrightarrow> detections (table' ! i) ! j = detections (table ! i) ! j)
            \<and> (conf (detections (table ! i) ! j) \<ge> 0
                 \<longrightarrow> detections (table' ! i) ! j = detections (table ! i) ! j
                   \<or> detections (table' ! i) ! j
                       = (detections (table ! i) ! j)
                           \<lparr>conf := - conf (detections (table ! i) ! j)\<rparr>)
            \<and> (conf (detections (table' ! i) ! j) > 0
                 \<longrightarrow> conf (detections (table ! i) ! j) > 0)"
    if "i < length table" "j < length (detections (table ! i))" for i j
    using el [OF that] unfolding suppressed_def by (elim disjE conjE) simp_all
  with len ln show ?thesis
    by blast
qed

theorem suppression_idempotent_witness:
  "negate_suspicious test_env default_options [''A/0.jpg'' \<mapsto> 0] [sample_row ''A/0.jpg'']
     [[sample_location [''A/0.jpg''], sample_location [''A/0.jpg'']]]
   = Inr [\<lparr>row_file = ''A/0.jpg'', max_detection_conf = 0.9,
           detections = [sample_detection\<lparr>conf := - 0.9\<rparr>]\<rparr>]"
proof -
  have run: "negate_suspicious test_env default_options [''A/0.jpg'' \<mapsto> 0]
     [sample_row ''A/0.jpg'']
     [[sample_location [''A/0.jpg''], sample_location [''A/0.jpg'']]]
   = Inr [\<lparr>row_file = ''A/0.jpg'', max_detection_conf = 0.9,
           detections = [sample_detection\<lparr>conf := - 0.9\<rparr>]\<rparr>]"
    by (simp add: negate_instance_def sample_location_def sample_instance_def sample_row_def
        sample_detection_def test_env_def default_options_def get_iou_spec_def py_index_def
        Let_def)
  from suppression_idempotent [OF run] run show ?thesis
    by simp
qed

text \<open>C10. The check of an instance's box against the detection of the table compares
  \<^verbatim>\<open>instanceBbox[0:3]\<close> with \<^verbatim>\<open>detectionToModify['bbox'][0:3]\<close>: when the two boxes
  differ in the height only, the check passes and the detection's confidence is
  negated.\<close>

theorem height_not_compared:
  assumes "get_iou E (inst_bbox inst) locBbox = Inr v" and "iouThreshold opts \<le> v"
    and "f2r (filename inst) = Some iRow" and "iRow < length table"
    and "py_index (detections (table ! iRow)) (iDetection inst) = Some j"
    and "inst_bbox inst = [x, y, w, h]"
    and "bbox (detections (table ! iRow) ! j) = [x, y, w, h']"
    and "h \<noteq> h'"
    and "conf (detections (table ! iRow) ! j) \<ge> 0"
  shows "\<exists>table'. negate_instance E opts f2r locBbox table inst = Inr table'
     \<and> conf (detections (table' ! iRow) ! j) = - conf (detections (table ! iRow) ! j)
     \<and> bbox (detections (table' ! iRow) ! j) = [x, y, w, h']"
  using assms py_index_less [OF assms(5)]
  by (simp add: negate_instance_def Let_def)

theorem height_not_compared_witness:
  "\<exists>table'. negate_instance test_env default_options [''A/0.jpg'' \<mapsto> 0]
        [0.1, 0.1, 0.05, 0.06] [sample_row ''A/0.jpg'']
        ((sample_instance ''A/0.jpg'')\<lparr>inst_bbox := [0.1, 0.1, 0.05, 0.06]\<rparr>) = Inr table'
     \<and> conf (detections (table' ! 0) ! 0) = - 0.9
     \<and> bbox (detections (table' ! 0) ! 0) = [0.1, 0.1, 0.05, 0.05]"
  using height_not_compared
    [of test_env "(sample_instance ''A/0.jpg'')\<lparr>inst_bbox := [0.1, 0.1, 0.05, 0.06]\<rparr>"
        "[0.1, 0.1, 0.05, 0.06]" 1 default_options "[''A/0.jpg'' \<mapsto> 0]" 0
        "[sample_row ''A/0.jpg'']" 0 "0.1" "0.1" "0.05" "0.06" "0.05"]
  by (simp add: sample_instance_def sample_row_def sample_detection_def test_env_def
      default_options_def get_iou_spec_def py_index_def)

lemma max_conf_loop_Some:
  "fst (max_conf_loop (Some m) n ds) = Some (Max (insert m (conf ` set ds)))"
proof (induction ds arbitrary: m n)
  case Nil
  then show ?case by simp
next
  case (Cons d ds)
  have fin: "finite (conf ` set ds)" by simp
  have "Max (insert (max m (conf d)) (conf ` set ds)) = Max (insert m (insert (conf d) (conf ` set ds)))"
    by (cases "conf ` set ds = {}") (simp_all add: max.assoc max.commute)
  then show ?case
    using Cons.IH [of "conf d"] Cons.IH [of m]
    by (auto simp: Let_def max_def split: if_splits)
qed

lemma max_conf_loop_None:
  "ds \<noteq> [] \<Longrightarrow> fst (max_conf_loop None n ds) = Some (Max (conf ` set ds))"
  by (cases ds) (simp_all add: max_conf_loop_Some Let_def)

lemma update_max_conf_nonempty:
  assumes "detections r \<noteq> []"
  shows "\<exists>nNegative. update_max_conf r =
     (if \<not> max_detection_conf r \<ge> 0 then Inl AssertionError
      else if \<bar>Max (conf ` set (detections r)) - max_detection_conf r\<bar> > 0.00000001 then
        (if \<not> Max (conf ` set (detections r)) < max_detection_conf r then Inl AssertionError
         else if \<not> nNegative > (0::nat) then Inl AssertionError
         else Inr (r\<lparr>max_detection_conf := Max (conf ` set (detections r))\<rparr>))
      else Inr r)"
proof -
  obtain mp nn where l: "max_conf_loop None 0 (detections r) = (mp, nn)"
    by (cases "max_conf_loop None 0 (detections r)")
  with max_conf_loop_None [OF assms, of 0]
  have "mp = Some (Max (conf ` set (detections r)))" by simp
  with l assms show ?thesis
    by (intro exI [of _ nn]) (simp add: update_max_conf_def Let_def)
qed

lemma update_max_conf_Inr:
  assumes "update_max_conf r = Inr r'"
  shows "max_detection_conf r' \<le> max_detection_conf r \<and> detections r' = detections r
    \<and> row_file r' = row_file r"
proof (cases "detections r = []")
  case True
  with assms show ?thesis by (simp add: update_max_conf_def)
next
  case False
  from update_max_conf_nonempty [OF False] assms show ?thesis
    by (auto split: if_splits)
qed

lemma update_max_conf_Inl:
  assumes "update_max_conf r = Inl e"
  shows "e = AssertionError"
proof (cases "detections r = []")
  case True
  with assms show ?thesis by (simp add: update_max_conf_def)
next
  case False
  from update_max_conf_nonempty [OF False] assms show ?thesis
    by (auto split: if_splits)
qed

lemma update_max_confs_Inr:
  "update_max_confs rs = Inr rs' \<Longrightarrow>
   length rs' = length rs \<and> (\<forall>i < length rs. update_max_conf (rs ! i) = Inr (rs' ! i))"
proof (induction rs arbitrary: rs')
  case Nil
  then show ?case by simp
next
  case (Cons r rs)
  then show ?case
    by (auto split: sum.splits simp: nth_Cons split: nat.splits)
qed

lemma update_max_confs_Inl:
  "\<exists>r \<in> set rs. \<exists>e. update_max_conf r = Inl e \<Longrightarrow> update_max_confs rs = Inl AssertionError"
proof (induction rs)
  case Nil
  then show ?case by simp
next
  case (Cons r rs)
  show ?case
  proof (cases "update_max_conf r")
    case (Inl e)
    then show ?thesis using update_max_conf_Inl [OF Inl] by simp
  next
    case (Inr r')
    with Cons.prems have "\<exists>r \<in> set rs. \<exists>e. update_max_conf r = Inl e" by auto
    from Cons.IH [OF this] Inr show ?thesis by simp
  qed
qed

text \<open>C4. After update_detection_table, the cached \<^verbatim>\<open>max_detection_conf\<close> of every
  row is at most its value before. For a row with at least one detection whose
  recomputed maximum (the largest confidence after the first pass) differs from the
  cached value by more than 1e-8: where the run returns, the recomputed maximum is
  strictly smaller than the cached value and replaces it; a recomputed maximum that is
  not smaller makes the run fail with an assertion error.\<close>

theorem max_confidence_monotone:
  assumes "negate_suspicious E opts f2r table susp = Inr table1"
  shows "(\<forall>table'. update_detection_table E opts f2r susp table = Inr table' \<longrightarrow>
            length table' = length table
          \<and> (\<forall>i < length table.
                max_detection_conf (table' ! i) \<le> max_detection_conf (table ! i)
              \<and> (detections (table1 ! i) \<noteq> []
                  \<and> \<bar>Max (conf ` set (detections (table1 ! i))) - max_detection_conf (table ! i)\<bar>
                      > 0.00000001
                 \<longrightarrow> Max (conf ` set (detections (table1 ! i))) < max_detection_conf (table ! i)
                   \<and> max_detection_conf (table' ! i)
                       = Max (conf ` set (detections (table1 ! i))))))
     \<and> ((\<exists>i < length table. detections (table1 ! i) \<noteq> []
            \<and> \<bar>Max (conf ` set (detections (table1 ! i))) - max_detection_conf (table ! i)\<bar>
                 > 0.00000001
            \<and> \<not> Max (conf ` set (detections (table1 ! i))) < max_detection_conf (table ! i))
         \<longrightarrow> update_detection_table E opts f2r susp table = Inl AssertionError)"
proof -
  have rel: "list_all2 row_suppressed table table1"
    using assms by (rule negate_suspicious_suppressed)
  then have len1: "length table1 = length table"
    by (simp add: list_all2_lengthD)
  have cached: "max_detection_conf (table1 ! i) = max_detection_conf (table ! i)"
    if "i < length table" for i
    using rel that by (auto simp: list_all2_conv_all_nth row_suppressed_def)
  have upd: "update_detection_table E opts f2r susp table = update_max_confs table1"
    using assms by (simp add: update_detection_table_def)
  have part1: "length table' = length table
          \<and> (\<forall>i < length table.
                max_detection_conf (table' ! i) \<le> max_detection_conf (table ! i)
              \<and> (detections (table1 ! i) \<noteq> []
                  \<and> \<bar>Max (conf ` set (detections (table1 ! i))) - max_detection_conf (table ! i)\<bar>
                      > 0.00000001
                 \<longrightarrow> Max (conf ` set (detections (table1 ! i))) < max_detection_conf (table ! i)
                   \<and> max_detection_conf (table' ! i)
                       = Max (conf ` set (detections (table1 ! i)))))"
    if run: "update_max_confs table1 = Inr table'" for table'
  proof (intro conjI allI impI)
    from update_max_confs_Inr [OF run] len1
    show "length table' = length table" by simp
  next
    fix i assume i: "i < length table"
    with update_max_confs_Inr [OF run] len1
    have step: "update_max_conf (table1 ! i) = Inr (table' ! i)" by simp
    from update_max_conf_Inr [OF step] cached [OF i]
    show "max_detection_conf (table' ! i) \<le> max_detection_conf (table ! i)" by simp
  next
    fix i assume i: "i < length table"
      and ch: "detections (table1 ! i) \<noteq> []
         \<and> \<bar>Max (conf ` set (detections (table1 ! i))) - max_detection_conf (table ! i)\<bar>
              > 0.00000001"
    with update_max_confs_Inr [OF run] len1
    have step: "update_max_conf (table1 ! i) = Inr (table' ! i)" by simp
    from ch have ne: "detections (table1 ! i) \<noteq> []" by simp
    from update_max_conf_nonempty [OF ne] step ch cached [OF i]
    have "Max (conf ` set (detections (table1 ! i))) < max_detection_conf (table ! i)
      \<and> max_detection_conf (table' ! i) = Max (conf ` set (detections (table1 ! i)))"
      by (auto split: if_splits)
    then show "Max (conf ` set (detections (table1 ! i))) < max_detection_conf (table ! i)"
      and "max_detection_conf (table' ! i) = Max (conf ` set (detections (table1 ! i)))"
      by simp_all
  qed
  have part2: "update_max_confs table1 = Inl AssertionError"
    if "\<exists>i < length table. detections (table1 ! i) \<noteq> []
            \<and> \<bar>Max (conf ` set (detections (table1 ! i))) - max_detection_conf (table ! i)\<bar>
                 > 0.00000001
            \<and> \<not> Max (conf ` set (detections (table1 ! i))) < max_detection_conf (table ! i)"
  proof -
    from that obtain i where i: "i < length table"
      and ne: "detections (table1 ! i) \<noteq> []"
      and big: "\<bar>Max (conf ` set (detections (table1 ! i))) - max_detection_conf (table ! i)\<bar>
                 > 0.00000001"
      and nl: "\<not> Max (conf ` set (detections (table1 ! i))) < max_detection_conf (table ! i)"
      by blast
    from update_max_conf_nonempty [OF ne] big nl cached [OF i]
    have "update_max_conf (table1 ! i) = Inl AssertionError"
      by (auto split: if_splits)
    moreover have "table1 ! i \<in> set table1"
      using i len1 by simp
    ultimately show ?thesis
      by (intro update_max_confs_Inl) blast
  qed
  show ?thesis
    unfolding upd using part1 part2 by blast
qed

theorem max_confidence_monotone_witness:
  "update_detection_table test_env default_options [''A/0.jpg'' \<mapsto> 0]
     [[sample_location [''A/0.jpg'']]] [sample_row ''A/0.jpg'']
   = Inr [\<lparr>row_file = ''A/0.jpg'', max_detection_conf = - 0.9,
           detections = [sample_detection\<lparr>conf := - 0.9\<rparr>]\<rparr>]
   \<and> update_detection_table test_env default_options [''A/0.jpg'' \<mapsto> 0] []
       [(sample_row ''A/0.jpg'')\<lparr>max_detection_conf := 0.5\<rparr>]
   = Inl AssertionError"
proof -
  have run1: "negate_suspicious test_env default_options [''A/0.jpg'' \<mapsto> 0]
     [sample_row ''A/0.jpg''] [[sample_location [''A/0.jpg'']]]
   = Inr [\<lparr>row_file = ''A/0.jpg'', max_detection_conf = 0.9,
           detections = [sample_detection\<lparr>conf := - 0.9\<rparr>]\<rparr>]"
    by (simp add: negate_instance_def sample_location_def sample_instance_def sample_row_def
        sample_detection_def test_env_def default_options_def get_iou_spec_def py_index_def
        Let_def)
  have run2: "negate_suspicious test_env default_options [''A/0.jpg'' \<mapsto> 0]
     [(sample_row ''A/0.jpg'')\<lparr>max_detection_conf := 0.5\<rparr>] []
   = Inr [(sample_row ''A/0.jpg'')\<lparr>max_detection_conf := 0.5\<rparr>]"
    by simp
  have ok: "update_detection_table test_env default_options [''A/0.jpg'' \<mapsto> 0]
     [[sample_location [''A/0.jpg'']]] [sample_row ''A/0.jpg'']
   = Inr [\<lparr>row_file = ''A/0.jpg'', max_detection_conf = - 0.9,
           detections = [sample_detection\<lparr>conf := - 0.9\<rparr>]\<rparr>]"
    using run1
    by (simp add: update_detection_table_def update_max_conf_def sample_detection_def Let_def)
  from max_confidence_monotone [OF run1] max_confidence_monotone [OF run2] ok
  show ?thesis
    by (simp add: sample_row_def sample_detection_def)
qed

subsection \<open>Separating files into directories\<close>

lemma add_row_keys:
  "map fst (add_row rbd d r) = (if d \<in> set (map fst rbd) then map fst rbd else map fst rbd @ [d])"
  by (auto simp: add_row_def Let_def case_prod_beta cong: map_cong)

lemma add_row_distinct:
  "distinct (map fst rbd) \<Longrightarrow> distinct (map fst (add_row rbd d r))"
  by (simp add: add_row_keys)

lemma map_of_append_rows:
  "map_of (map (\<lambda>(k, rs). if k = d then (k, rs @ [r]) else (k, rs)) rbd) d' =
     map_option (\<lambda>rs. if d' = d then rs @ [r] else rs) (map_of rbd d')"
  by (induction rbd) auto

lemma add_row_rows_of:
  "rows_of (add_row rbd d r) d' = rows_of rbd d' @ (if d' = d then [r] else [])"
proof (cases "d \<in> set (map fst rbd)")
  case True
  then obtain rs where "map_of rbd d = Some rs"
    by (metis list.set_map map_of_eq_None_iff not_Some_eq)
  with True show ?thesis
    by (auto simp: rows_of_def add_row_def Let_def map_of_append_rows split: option.splits)
next
  case False
  then have "map_of rbd d = None"
    by (simp add: map_of_eq_None_iff)
  with False show ?thesis
    by (auto simp: rows_of_def add_row_def Let_def map_of_append_rows split: option.splits)
qed

lemma separate_loop_fail:
  "(\<exists>r\<in>set rs. dir_key E opts (row_file r) = []) \<or> \<not> distinct (map row_file rs)
     \<or> (\<exists>r\<in>set rs. f2r (row_file r) \<noteq> None) \<Longrightarrow>
   separate_loop E opts rbd f2r i rs = Inl AssertionError"
proof (induction rs arbitrary: rbd f2r i)
  case Nil
  then show ?case by simp
next
  case (Cons r rs)
  show ?case
  proof (cases "dir_key E opts (row_file r) = [] \<or> f2r (row_file r) \<noteq> None")
    case True
    then show ?thesis by (auto simp: Let_def)
  next
    case False
    from Cons.prems False
    have "(\<exists>r\<in>set rs. dir_key E opts (row_file r) = []) \<or> \<not> distinct (map row_file rs)
     \<or> (\<exists>r'\<in>set rs. (f2r(row_file r \<mapsto> i)) (row_file r') \<noteq> None)"
      by auto
    then have "separate_loop E opts (add_row rbd (dir_key E opts (row_file r)) r)
        (f2r(row_file r \<mapsto> i)) (Suc i) rs = Inl AssertionError"
      by (rule Cons.IH)
    with False show ?thesis
      by (simp add: Let_def del: fun_upd_apply)
  qed
qed

lemma separate_loop_ok:
  assumes "\<forall>r\<in>set rs. dir_key E opts (row_file r) \<noteq> []"
    and "distinct (map row_file rs)"
    and "\<forall>r\<in>set rs. f2r (row_file r) = None"
  shows "\<exists>rbd' f2r'. separate_loop E opts rbd f2r i rs = Inr (rbd', f2r')
     \<and> (distinct (map fst rbd) \<longrightarrow> distinct (map fst rbd'))
     \<and> set (map fst rbd') = set (map fst rbd) \<union> (\<lambda>r. dir_key E opts (row_file r)) ` set rs
     \<and> (\<forall>d. rows_of rbd' d = rows_of rbd d @ filter (\<lambda>r. dir_key E opts (row_file r) = d) rs)
     \<and> (\<forall>k < length rs. f2r' (row_file (rs ! k)) = Some (i + k))
     \<and> (\<forall>x. x \<notin> row_file ` set rs \<longrightarrow> f2r' x = f2r x)"
  using assms
proof (induction rs arbitrary: rbd f2r i)
  case Nil
  then show ?case by simp
next
  case (Cons r rs)
  let ?k = "dir_key E opts (row_file r)"
  let ?rbd = "add_row rbd ?k r"
  let ?f2r = "f2r(row_file r \<mapsto> i)"
  have pre: "\<forall>r\<in>set rs. dir_key E opts (row_file r) \<noteq> []" "distinct (map row_file rs)"
    "\<forall>r'\<in>set rs. ?f2r (row_file r') = None"
    using Cons.prems by (auto simp: image_iff)
  from Cons.IH [OF pre, of ?rbd "Suc i"] obtain rbd' f2r' where
    run: "separate_loop E opts ?rbd ?f2r (Suc i) rs = Inr (rbd', f2r')"
    and dist: "distinct (map fst ?rbd) \<longrightarrow> distinct (map fst rbd')"
    and keys: "set (map fst rbd') = set (map fst ?rbd) \<union> (\<lambda>r. dir_key E opts (row_file r)) ` set rs"
    and rows: "\<forall>d. rows_of rbd' d = rows_of ?rbd d @ filter (\<lambda>r. dir_key E opts (row_file r) = d) rs"
    and idx: "\<forall>k < length rs. f2r' (row_file (rs ! k)) = Some (Suc i + k)"
    and other: "\<forall>x. x \<notin> row_file ` set rs \<longrightarrow> f2r' x = ?f2r x"
    by blast
  have step: "separate_loop E opts rbd f2r i (r # rs) = Inr (rbd', f2r')"
    using Cons.prems run by (simp add: Let_def del: fun_upd_apply)
  have d': "distinct (map fst rbd) \<longrightarrow> distinct (map fst rbd')"
    using dist add_row_distinct by blast
  have k': "set (map fst rbd') = set (map fst rbd) \<union> (\<lambda>r. dir_key E opts (row_file r)) ` set (r # rs)"
    unfolding keys add_row_keys by auto
  have r': "\<forall>d. rows_of rbd' d = rows_of rbd d @ filter (\<lambda>r. dir_key E opts (row_file r) = d) (r # rs)"
    using rows by (auto simp: add_row_rows_of)
  have notin: "row_file r \<notin> row_file ` set rs"
    using Cons.prems(2) by auto
  have i': "\<forall>k < length (r # rs). f2r' (row_file ((r # rs) ! k)) = Some (i + k)"
  proof (intro allI impI)
    fix k assume "k < length (r # rs)"
    then show "f2r' (row_file ((r # rs) ! k)) = Some (i + k)"
      using idx other notin by (cases k) auto
  qed
  have o': "\<forall>x. x \<notin> row_file ` set (r # rs) \<longrightarrow> f2r' x = f2r x"
    using other by auto
  from step d' k' r' i' o' show ?case by blast
qed

lemma rows_of_member:
  "distinct (map fst rbd) \<Longrightarrow> (d, rows) \<in> set rbd \<Longrightarrow> rows_of rbd d = rows"
  by (simp add: rows_of_def)


lemma separate_files_Inr:
  assumes "separate_files E opts table = Inr (rbd, f2r)"
  shows "distinct (map fst rbd)"
    and "distinct (map row_file table)"
    and "\<forall>r\<in>set table. dir_key E opts (row_file r) \<noteq> []"
    and "set (map fst rbd) = (\<lambda>r. dir_key E opts (row_file r)) ` set table"
    and "\<forall>d. rows_of rbd d = filter (\<lambda>r. dir_key E opts (row_file r) = d) table"
    and "\<forall>i < length table. f2r (row_file (table ! i)) = Some i"
    and "\<forall>x. x \<notin> row_file ` set table \<longrightarrow> f2r x = None"
proof -
  have ok: "(\<forall>r\<in>set table. dir_key E opts (row_file r) \<noteq> []) \<and> distinct (map row_file table)"
  proof (rule ccontr)
    assume "\<not> ?thesis"
    then have "(\<exists>r\<in>set table. dir_key E opts (row_file r) = [])
       \<or> \<not> distinct (map row_file table) \<or> (\<exists>r\<in>set table. Map.empty (row_file r) \<noteq> None)"
      by blast
    from separate_loop_fail [OF this, of "[]" 0] assms show False
      by (simp add: separate_files_def)
  qed
  then have pre: "\<forall>r\<in>set table. dir_key E opts (row_file r) \<noteq> []"
    "distinct (map row_file table)" "\<forall>r\<in>set table. Map.empty (row_file r) = None"
    by simp_all
  from separate_loop_ok [OF pre, of "[]" 0] assms
  have res: "(distinct (map fst []) \<longrightarrow> distinct (map fst rbd))
     \<and> set (map fst rbd) = set (map fst []) \<union> (\<lambda>r. dir_key E opts (row_file r)) ` set table
     \<and> (\<forall>d. rows_of rbd d = rows_of [] d @ filter (\<lambda>r. dir_key E opts (row_file r) = d) table)
     \<and> (\<forall>k < length table. f2r (row_file (table ! k)) = Some (0 + k))
     \<and> (\<forall>x. x \<notin> row_file ` set table \<longrightarrow> f2r x = Map.empty x)"
    by (simp add: separate_files_def del: fun_upd_apply)
  show "distinct (map fst rbd)" using res by simp
  show "distinct (map row_file table)" using ok by simp
  show "\<forall>r\<in>set table. dir_key E opts (row_file r) \<noteq> []" using ok by simp
  show "set (map fst rbd) = (\<lambda>r. dir_key E opts (row_file r)) ` set table" using res by simp
  show "\<forall>d. rows_of rbd d = filter (\<lambda>r. dir_key E opts (row_file r) = d) table"
    using res by (simp add: rows_of_def)
  show "\<forall>i < length table. f2r (row_file (table ! i)) = Some i" using res by simp
  show "\<forall>x. x \<notin> row_file ` set table \<longrightarrow> f2r x = None" using res by simp
qed

lemma separate_files_total:
  assumes "\<forall>r\<in>set table. dir_key E opts (row_file r) \<noteq> []" and "distinct (map row_file table)"
  shows "\<exists>rbd f2r. separate_files E opts table = Inr (rbd, f2r)"
proof -
  have "\<forall>r\<in>set table. Map.empty (row_file r) = None" by simp
  from separate_loop_ok [OF assms this, of "[]" 0] show ?thesis
    unfolding separate_files_def by blast
qed

text \<open>C9. Separating the records into directories fails with an assertion error
  if the directory key of some record (after walking up \<^verbatim>\<open>nDirLevelsFromLeaf\<close> levels)
  is the empty string, or if a file path occurs more than once in the table. For a table
  with non-empty keys and unique paths it returns: the keys of \<^verbatim>\<open>rowsByDirectory\<close> are
  distinct, the group of a key holds exactly the records with that key, in table order,
  so every record is in exactly one group, and \<^verbatim>\<open>filenameToRow\<close> maps each path of
  the table (and nothing else) to its row index.\<close>

theorem partitioner_failure_conditions:
  "((\<exists>r\<in>set table. dir_key E opts (row_file r) = []) \<or> \<not> distinct (map row_file table)
      \<longrightarrow> separate_files E opts table = Inl AssertionError)
   \<and> ((\<forall>r\<in>set table. dir_key E opts (row_file r) \<noteq> []) \<and> distinct (map row_file table)
      \<longrightarrow> (\<exists>rbd f2r. separate_files E opts table = Inr (rbd, f2r)
            \<and> distinct (map fst rbd)
            \<and> (\<forall>(d, rows) \<in> set rbd.
                  rows = filter (\<lambda>r. dir_key E opts (row_file r) = d) table)
            \<and> (\<forall>r \<in> set table. \<exists>!g. g \<in> set rbd \<and> r \<in> set (snd g))
            \<and> (\<forall>i < length table. f2r (row_file (table ! i)) = Some i)
            \<and> dom f2r = row_file ` set table))"
proof (intro conjI impI)
  assume "(\<exists>r\<in>set table. dir_key E opts (row_file r) = []) \<or> \<not> distinct (map row_file table)"
  then have "(\<exists>r\<in>set table. dir_key E opts (row_file r) = [])
       \<or> \<not> distinct (map row_file table) \<or> (\<exists>r\<in>set table. Map.empty (row_file r) \<noteq> None)"
    by blast
  from separate_loop_fail [OF this]
  show "separate_files E opts table = Inl AssertionError"
    by (simp add: separate_files_def)
next
  assume ok: "(\<forall>r\<in>set table. dir_key E opts (row_file r) \<noteq> []) \<and> distinct (map row_file table)"
  then obtain rbd f2r where run: "separate_files E opts table = Inr (rbd, f2r)"
    using separate_files_total by blast
  note facts = separate_files_Inr [OF run]
  have groups: "rows = filter (\<lambda>r. dir_key E opts (row_file r) = d) table"
    if "(d, rows) \<in> set rbd" for d rows
    using facts(1,5) rows_of_member that by metis
  have uniq: "\<exists>!g. g \<in> set rbd \<and> r \<in> set (snd g)" if r: "r \<in> set table" for r
  proof -
    let ?k = "dir_key E opts (row_file r)"
    from facts(4) r have "?k \<in> set (map fst rbd)" by blast
    then obtain rows where g: "(?k, rows) \<in> set rbd" by auto
    with groups r have mem: "r \<in> set rows" by force
    have only: "g = (?k, rows)" if "g \<in> set rbd" "r \<in> set (snd g)" for g
    proof -
      obtain d rs where dg: "g = (d, rs)" by (cases g)
      with that groups have "d = ?k" by force
      with dg that(1) g facts(1) show ?thesis
        by (metis eq_key_imp_eq_value)
    qed
    show ?thesis
    proof (rule ex1I [of _ "(?k, rows)"])
      show "(?k, rows) \<in> set rbd \<and> r \<in> set (snd (?k, rows))"
        using g mem by simp
    next
      fix g assume "g \<in> set rbd \<and> r \<in> set (snd g)"
      then show "g = (?k, rows)" using only by blast
    qed
  qed
  have dom: "dom f2r = row_file ` set table"
  proof
    show "dom f2r \<subseteq> row_file ` set table" using facts(7) by auto
    show "row_file ` set table \<subseteq> dom f2r"
    proof
      fix x assume "x \<in> row_file ` set table"
      then obtain i where "i < length table" "x = row_file (table ! i)"
        by (auto simp: in_set_conv_nth)
      with facts(6) show "x \<in> dom f2r" by auto
    qed
  qed
  show "\<exists>rbd f2r. separate_files E opts table = Inr (rbd, f2r)
            \<and> distinct (map fst rbd)
            \<and> (\<forall>(d, rows) \<in> set rbd.
                  rows = filter (\<lambda>r. dir_key E opts (row_file r) = d) table)
            \<and> (\<forall>r \<in> set table. \<exists>!g. g \<in> set rbd \<and> r \<in> set (snd g))
            \<and> (\<forall>i < length table. f2r (row_file (table ! i)) = Some i)
            \<and> dom f2r = row_file ` set table"
  proof (intro exI conjI)
    show "separate_files E opts table = Inr (rbd, f2r)" by (rule run)
    show "distinct (map fst rbd)" by (rule facts(1))
    show "\<forall>(d, rows) \<in> set rbd.
            rows = filter (\<lambda>r. dir_key E opts (row_file r) = d) table"
    proof (intro ballI)
      fix g assume gin: "g \<in> set rbd"
      obtain d rows where dg: "g = (d, rows)" by (cases g)
      with gin groups [of d rows]
      show "case g of (d, rows) \<Rightarrow>
            rows = filter (\<lambda>r. dir_key E opts (row_file r) = d) table"
        by simp
    qed
    show "\<forall>r \<in> set table. \<exists>!g. g \<in> set rbd \<and> r \<in> set (snd g)"
      using uniq by (intro ballI)
    show "\<forall>i < length table. f2r (row_file (table ! i)) = Some i" by (rule facts(6))
    show "dom f2r = row_file ` set table" by (rule dom)
  qed
qed

theorem partitioner_failure_conditions_witness:
  "separate_files test_env default_options [sample_row ''A/0.jpg'', sample_row ''A/0.jpg'']
     = Inl AssertionError
   \<and> separate_files test_env default_options [sample_row ''0.jpg''] = Inl AssertionError
   \<and> (\<exists>rbd f2r. separate_files test_env default_options
          [sample_row ''A/0.jpg'', sample_row ''B/0.jpg'', sample_row ''A/1.jpg'']
          = Inr (rbd, f2r)
        \<and> f2r ''A/0.jpg'' = Some 0 \<and> f2r ''B/0.jpg'' = Some 1 \<and> f2r ''A/1.jpg'' = Some 2)"
proof -
  let ?dup = "[sample_row ''A/0.jpg'', sample_row ''A/0.jpg'']"
  let ?top = "[sample_row ''0.jpg'']"
  let ?t = "[sample_row ''A/0.jpg'', sample_row ''B/0.jpg'', sample_row ''A/1.jpg'']"
  have keys: "dir_key test_env default_options ''A/0.jpg'' = ''A''"
    "dir_key test_env default_options ''B/0.jpg'' = ''B''"
    "dir_key test_env default_options ''A/1.jpg'' = ''A''"
    "dir_key test_env default_options ''0.jpg'' = []"
    by code_simp+
  have "(\<exists>r\<in>set ?dup. dir_key test_env default_options (row_file r) = [])
      \<or> \<not> distinct (map row_file ?dup)"
    by (simp add: sample_row_def)
  from partitioner_failure_conditions [THEN conjunct1, THEN mp, OF this]
  have 1: "separate_files test_env default_options ?dup = Inl AssertionError" .
  have "(\<exists>r\<in>set ?top. dir_key test_env default_options (row_file r) = [])
      \<or> \<not> distinct (map row_file ?top)"
    by (simp add: sample_row_def keys)
  from partitioner_failure_conditions [THEN conjunct1, THEN mp, OF this]
  have 2: "separate_files test_env default_options ?top = Inl AssertionError" .
  have 3: "\<exists>rbd f2r. separate_files test_env default_options ?t = Inr (rbd, f2r)
        \<and> f2r ''A/0.jpg'' = Some 0 \<and> f2r ''B/0.jpg'' = Some 1 \<and> f2r ''A/1.jpg'' = Some 2"
    if run: "separate_files test_env default_options ?t = Inr (rbd, f2r)"
      and idx: "\<forall>i < length ?t. f2r (row_file (?t ! i)) = Some i" for rbd f2r
  proof -
    from idx [rule_format, of 0] idx [rule_format, of 1] idx [rule_format, of 2]
    have "f2r ''A/0.jpg'' = Some 0 \<and> f2r ''B/0.jpg'' = Some 1 \<and> f2r ''A/1.jpg'' = Some 2"
      by (simp add: sample_row_def)
    with run show ?thesis by blast
  qed
  have "(\<forall>r\<in>set ?t. dir_key test_env default_options (row_file r) \<noteq> [])
      \<and> distinct (map row_file ?t)"
    by (simp add: sample_row_def keys)
  from partitioner_failure_conditions [THEN conjunct2, THEN mp, OF this]
  have "\<exists>rbd f2r. separate_files test_env default_options ?t = Inr (rbd, f2r)
        \<and> f2r ''A/0.jpg'' = Some 0 \<and> f2r ''B/0.jpg'' = Some 1 \<and> f2r ''A/1.jpg'' = Some 2"
    by (elim exE conjE) (rule 3, assumption+)
  with 1 2 show ?thesis by (intro conjI)
qed

subsection \<open>The directories searched\<close>

lemma py_slice_to_minus_one: "py_slice_to xs (- 1) = butlast xs"
  by (simp add: py_slice_to_def butlast_conv_take nat_diff_distrib')

lemma files_in_Nil: "files_in S []"
  by (simp add: files_in_def)

lemma files_in_mono: "files_in S cands \<Longrightarrow> S \<subseteq> T \<Longrightarrow> files_in T cands"
  by (auto simp: files_in_def)

lemma files_in_subset: "files_in S cands \<Longrightarrow> set cands' \<subseteq> set cands \<Longrightarrow> files_in S cands'"
  by (auto simp: files_in_def)

lemma match_candidates_files:
  "match_candidates E opts bb inst b cs = Inr (b', cs') \<Longrightarrow> files_in S cs \<Longrightarrow>
   filename inst \<in> S \<Longrightarrow> files_in S cs'"
proof (induction cs arbitrary: b b' cs')
  case Nil
  then show ?case by simp
next
  case (Cons c cs)
  from Cons.prems(2) have tl: "files_in S cs" and hd: "\<forall>i\<in>set (instances c). filename i \<in> S"
    by (simp_all add: files_in_def)
  from Cons.prems(1) obtain v where v: "get_iou E bb (loc_bbox c) = Inr v"
    by (cases "get_iou E bb (loc_bbox c)") simp_all
  show ?case
  proof (cases "v \<ge> iouThreshold opts")
    case True
    with Cons.prems(1) v obtain cs1 where
      r: "match_candidates E opts bb inst True cs = Inr (b', cs1)"
      and e: "cs' = c\<lparr>instances := instances c @ [inst]\<rparr> # cs1"
      by (auto split: sum.splits)
    from Cons.IH [OF r tl Cons.prems(3)] hd Cons.prems(3) e show ?thesis
      by (simp add: files_in_def)
  next
    case False
    with Cons.prems(1) v obtain cs1 where
      r: "match_candidates E opts bb inst b cs = Inr (b', cs1)" and e: "cs' = c # cs1"
      by (auto split: sum.splits)
    from Cons.IH [OF r tl Cons.prems(3)] hd e show ?thesis
      by (simp add: files_in_def)
  qed
qed

lemma process_detection_files:
  assumes "process_detection E opts d r cands iDet det = Inr cands'"
    and "files_in S cands" and "row_file r \<in> S"
  shows "files_in S cands'"
proof (cases "cands' = cands")
  case True
  with assms(2) show ?thesis by simp
next
  case False
  let ?inst = "\<lparr>iDetection = iDet, filename = row_file r, inst_bbox = bbox det,
                 confidence = conf det, inst_category = category det\<rparr>"
  from assms(1) False obtain bFound cs1 where
    m: "match_candidates E opts (bbox det) ?inst False cands = Inr (bFound, cs1)"
    and e: "cands' = (if \<not> bFound then cs1 @ [new_location ?inst det d] else cs1)"
    by (auto simp: process_detection_def Let_def
        split: if_splits sum.splits bool.splits prod.splits)
  from match_candidates_files [OF m assms(2)] assms(3) have "files_in S cs1" by simp
  with e assms(3) show ?thesis
    by (auto simp: files_in_def new_location_def)
qed

lemma detections_loop_files:
  "detections_loop E opts d r cands iDet dets = Inr cands' \<Longrightarrow> files_in S cands \<Longrightarrow>
   row_file r \<in> S \<Longrightarrow> files_in S cands'"
proof (induction dets arbitrary: cands iDet)
  case Nil
  then show ?case by simp
next
  case (Cons det dets)
  from Cons.prems(1) obtain c1 where
    p: "process_detection E opts d r cands iDet det = Inr c1"
    and l: "detections_loop E opts d r c1 (iDet + 1) dets = Inr cands'"
    by (auto split: sum.splits)
  from process_detection_files [OF p Cons.prems(2,3)] have "files_in S c1" .
  from Cons.IH [OF l this Cons.prems(3)] show ?case .
qed

lemma process_row_files:
  "process_row E opts d cands r = Inr cands' \<Longrightarrow> files_in S cands \<Longrightarrow>
   row_file r \<in> S \<Longrightarrow> files_in S cands'"
  by (auto simp: process_row_def split: if_splits intro: detections_loop_files)

lemma rows_loop_files:
  "rows_loop E opts d cands rs = Inr cands' \<Longrightarrow> files_in S cands \<Longrightarrow>
   row_file ` set rs \<subseteq> S \<Longrightarrow> files_in S cands'"
proof (induction rs arbitrary: cands)
  case Nil
  then show ?case by simp
next
  case (Cons r rs)
  from Cons.prems(1) obtain c1 where
    p: "process_row E opts d cands r = Inr c1"
    and l: "rows_loop E opts d c1 rs = Inr cands'"
    by (auto split: sum.splits)
  from Cons.prems(3) have r: "row_file r \<in> S" and rs: "row_file ` set rs \<subseteq> S" by simp_all
  from process_row_files [OF p Cons.prems(2) r] have "files_in S c1" .
  from Cons.IH [OF l this rs] show ?case .
qed

lemma find_matches_in_directory_files:
  assumes "find_matches_in_directory E d opts rbd = Inr cands"
  shows "files_in (row_file ` set (rows_of rbd d)) cands"
proof -
  from assms obtain rows where m: "map_of rbd d = Some rows"
    and l: "rows_loop E opts d [] rows = Inr cands"
    by (auto simp: find_matches_in_directory_def split: option.splits)
  from rows_loop_files [OF l files_in_Nil, of "row_file ` set rows"] m show ?thesis
    by (simp add: rows_of_def)
qed

lemma find_all_matches_files:
  "find_all_matches E opts rbd dirs = Inr allc \<Longrightarrow>
   \<forall>cands\<in>set allc. files_in (\<Union>d\<in>set dirs. row_file ` set (rows_of rbd d)) cands"
proof (induction dirs arbitrary: allc)
  case Nil
  then show ?case by simp
next
  case (Cons d dirs)
  from Cons.prems obtain c rest where
    f: "find_matches_in_directory E d opts rbd = Inr c"
    and r: "find_all_matches E opts rbd dirs = Inr rest"
    and e: "allc = c # rest"
    by (auto split: sum.splits)
  have "files_in (\<Union>d\<in>set (d # dirs). row_file ` set (rows_of rbd d)) c"
    using find_matches_in_directory_files [OF f] by (rule files_in_mono) auto
  moreover have "\<forall>cands\<in>set rest.
      files_in (\<Union>d\<in>set (d # dirs). row_file ` set (rows_of rbd d)) cands"
  proof
    fix cands assume "cands \<in> set rest"
    with Cons.IH [OF r]
    have "files_in (\<Union>d\<in>set dirs. row_file ` set (rows_of rbd d)) cands" by blast
    then show "files_in (\<Union>d\<in>set (d # dirs). row_file ` set (rows_of rbd d)) cands"
      by (rule files_in_mono) auto
  qed
  ultimately show ?case using e by simp
qed

lemma find_suspicious_files:
  assumes "\<forall>cands\<in>set allc. files_in S cands"
  shows "\<forall>cands\<in>set (find_suspicious opts allc). files_in S cands"
proof
  fix cands assume "cands \<in> set (find_suspicious opts allc)"
  then obtain c0 where c0: "c0 \<in> set allc" and e: "cands = suspicious_this_dir opts c0"
    by (auto simp: find_suspicious_def)
  from assms c0 have "files_in S c0" by blast
  then show "files_in S cands"
    unfolding e by (rule files_in_subset) (simp add: suspicious_this_dir_filter)
qed

lemma negate_instance_other:
  assumes "negate_instance E opts f2r locBbox table inst = Inr table'"
    and "f2r (filename inst) \<noteq> Some i"
  shows "table' ! i = table ! i"
proof -
  from negate_instance_result [OF assms(1)] obtain iRow j where
    "f2r (filename inst) = Some iRow"
    and "table' =
      (if conf (detections (table ! iRow) ! j) \<ge> 0
       then table[iRow := (table ! iRow)\<lparr>detections :=
              (detections (table ! iRow))[j := (detections (table ! iRow) ! j)
                 \<lparr>conf := - conf (detections (table ! iRow) ! j)\<rparr>]\<rparr>]
       else table)"
    by blast
  with assms(2) show ?thesis by (auto split: if_splits)
qed

lemma negate_instances_other:
  "negate_instances E opts f2r locBbox table insts = Inr table' \<Longrightarrow>
   \<forall>inst\<in>set insts. f2r (filename inst) \<noteq> Some i \<Longrightarrow> table' ! i = table ! i"
proof (induction insts arbitrary: table)
  case Nil
  then show ?case by simp
next
  case (Cons a insts)
  from Cons.prems(1) obtain t1 where
    s: "negate_instance E opts f2r locBbox table a = Inr t1"
    and l: "negate_instances E opts f2r locBbox t1 insts = Inr table'"
    by (auto split: sum.splits)
  from Cons.prems(2) have a: "f2r (filename a) \<noteq> Some i"
    and r: "\<forall>inst\<in>set insts. f2r (filename inst) \<noteq> Some i" by simp_all
  from Cons.IH [OF l r] negate_instance_other [OF s a] show ?case by simp
qed

lemma negate_events_other:
  "negate_events E opts f2r table evs = Inr table' \<Longrightarrow> files_in S evs \<Longrightarrow>
   \<forall>x\<in>S. f2r x \<noteq> Some i \<Longrightarrow> table' ! i = table ! i"
proof (induction evs arbitrary: table)
  case Nil
  then show ?case by simp
next
  case (Cons ev evs)
  from Cons.prems(1) obtain t1 where
    s: "negate_instances E opts f2r (loc_bbox ev) table (instances ev) = Inr t1"
    and l: "negate_events E opts f2r t1 evs = Inr table'"
    by (auto split: sum.splits)
  from Cons.prems(2) have hd: "\<forall>inst\<in>set (instances ev). filename inst \<in> S"
    and tl: "files_in S evs" by (simp_all add: files_in_def)
  from hd Cons.prems(3) have "\<forall>inst\<in>set (instances ev). f2r (filename inst) \<noteq> Some i"
    by blast
  from negate_instances_other [OF s this] Cons.IH [OF l tl Cons.prems(3)]
  show ?case by simp
qed

lemma negate_suspicious_other:
  "negate_suspicious E opts f2r table susp = Inr table' \<Longrightarrow>
   \<forall>cands\<in>set susp. files_in S cands \<Longrightarrow>
   \<forall>x\<in>S. f2r x \<noteq> Some i \<Longrightarrow> table' ! i = table ! i"
proof (induction susp arbitrary: table)
  case Nil
  then show ?case by simp
next
  case (Cons evs susp)
  from Cons.prems(1) obtain t1 where
    s: "negate_events E opts f2r table evs = Inr t1"
    and l: "negate_suspicious E opts f2r t1 susp = Inr table'"
    by (auto split: sum.splits)
  from Cons.prems(2) have hd: "files_in S evs" and tl: "\<forall>cands\<in>set susp. files_in S cands"
    by simp_all
  from negate_events_other [OF s hd Cons.prems(3)] Cons.IH [OF l tl Cons.prems(3)]
  show ?case by simp
qed

lemma update_detection_table_other:
  assumes "update_detection_table E opts f2r susp table = Inr table'"
    and "\<forall>cands\<in>set susp. files_in S cands"
    and "\<forall>x\<in>S. f2r x \<noteq> Some i"
    and "i < length table"
  shows "detections (table' ! i) = detections (table ! i)"
proof -
  from assms(1) obtain t1 where
    p1: "negate_suspicious E opts f2r table susp = Inr t1"
    and p2: "update_max_confs t1 = Inr table'"
    by (auto simp: update_detection_table_def split: sum.splits)
  from negate_suspicious_suppressed [OF p1] have "length t1 = length table"
    by (simp add: list_all2_lengthD)
  with update_max_confs_Inr [OF p2] assms(4)
  have "update_max_conf (t1 ! i) = Inr (table' ! i)" by simp
  from update_max_conf_Inr [OF this] negate_suspicious_other [OF p1 assms(2,3)]
  show ?thesis by simp
qed

lemma last_group_not_indexed:
  assumes sep: "separate_files E opts table = Inr (rbd, f2r)"
    and ne: "rbd \<noteq> []"
    and i: "i < length table" and last: "table ! i \<in> set (snd (last rbd))"
    and x: "x \<in> (\<Union>d\<in>set (butlast (map fst rbd)). row_file ` set (rows_of rbd d))"
  shows "f2r x \<noteq> Some i"
proof
  assume fx: "f2r x = Some i"
  note facts = separate_files_Inr [OF sep]
  let ?key = "\<lambda>r. dir_key E opts (row_file r)"
  from x obtain d r where d: "d \<in> set (butlast (map fst rbd))"
    and r: "r \<in> set (rows_of rbd d)" and xr: "x = row_file r" by blast
  from r facts(5) have rt: "r \<in> set table" and kr: "?key r = d" by simp_all
  from rt obtain k where k: "k < length table" "r = table ! k"
    by (auto simp: in_set_conv_nth)
  with facts(6) xr have "f2r x = Some k" by simp
  with fx have "k = i" by simp
  with k kr have ki: "?key (table ! i) = d" by simp
  have lastmem: "last rbd \<in> set rbd" using ne by simp
  obtain dl rows where dl: "last rbd = (dl, rows)" by (cases "last rbd")
  with lastmem facts(1) have "rows_of rbd dl = rows"
    by (simp add: rows_of_member)
  with facts(5) have "rows = filter (\<lambda>r. ?key r = dl) table" by simp
  with last dl have "?key (table ! i) = dl" by simp
  with ki have "d = dl" by simp
  moreover have "last (map fst rbd) = dl"
    using ne dl by (simp add: last_map)
  then have "butlast (map fst rbd) @ [dl] = map fst rbd"
    using ne append_butlast_last_id [of "map fst rbd"] by simp
  then have "distinct (butlast (map fst rbd) @ [dl])"
    using facts(1) by simp
  then have "dl \<notin> set (butlast (map fst rbd))"
    by simp
  ultimately show False using d by simp
qed

lemma write_samples_dir_instances:
  "write_samples_dir E opts iDir iDet ds = Inr ds' \<Longrightarrow> map instances ds' = map instances ds"
proof (induction ds arbitrary: iDet ds')
  case Nil
  then show ?case by simp
next
  case (Cons d ds)
  from Cons.prems obtain rest where
    r: "write_samples_dir E opts iDir (Suc iDet) ds = Inr rest"
    and e: "ds' = d\<lparr>sampleImageRelativeFileName :=
               ''dir'' @ format_04d iDir @ ''_det'' @ format_04d iDet @ ''.jpg''\<rparr> # rest"
    by (auto simp: Let_def split: list.splits if_splits sum.splits)
  from Cons.IH [OF r] e show ?case by simp
qed

lemma write_samples_instances:
  "write_samples E opts iDir susp = Inr susp' \<Longrightarrow>
   map (map instances) susp' = map (map instances) susp"
proof (induction susp arbitrary: iDir susp')
  case Nil
  then show ?case by simp
next
  case (Cons ds susp)
  from Cons.prems obtain ds' rest where
    d: "write_samples_dir E opts iDir 0 ds = Inr ds'"
    and r: "write_samples E opts (Suc iDir) susp = Inr rest"
    and e: "susp' = ds' # rest"
    by (auto split: sum.splits)
  from write_samples_dir_instances [OF d] Cons.IH [OF r] e show ?case by simp
qed

lemma files_in_instances:
  "map (map instances) susp' = map (map instances) susp \<Longrightarrow>
   \<forall>cands\<in>set susp. files_in S cands \<Longrightarrow> \<forall>cands\<in>set susp'. files_in S cands"
proof (induction susp arbitrary: susp')
  case Nil
  then show ?case by simp
next
  case (Cons a susp)
  from Cons.prems(1) obtain a' rest where e: "susp' = a' # rest"
    and a: "map instances a' = map instances a"
    and r: "map (map instances) rest = map (map instances) susp"
    by (cases susp') auto
  from a have "set (map instances a') = set (map instances a)" by simp
  with Cons.prems(2) have "files_in S a'"
    unfolding files_in_def by (metis (no_types, lifting) image_iff list.set_intros(1) list.set_map)
  with Cons.IH [OF r] Cons.prems(2) e show ?case by simp
qed

text \<open>C2. With \<^verbatim>\<open>debugMaxDir\<close> at its default -1, the slice
  \<^verbatim>\<open>list(rowsByDirectory.keys())[0:-1]\<close> leaves the last directory out of
  \<^verbatim>\<open>dirsToSearch\<close>. For every table: no instance of any candidate found comes from a
  file of the last directory group, so none is in a suspicious location, and the
  table update leaves the detections of every row of that group as they were; a run
  that finds its suspicious locations itself (\<^verbatim>\<open>filterFileToLoad\<close> empty) returns a
  table in which the detections of that group are unchanged, the same directory keys,
  and the last group with its rows as they were.\<close>

theorem last_directory_never_searched:
  assumes dbg: "debugMaxDir opts = - 1"
    and sep: "separate_files E opts table = Inr (rbd, f2r)"
    and ne: "table \<noteq> []"
  shows "dirsToSearch opts rbd = butlast (map fst rbd)
    \<and> fst (last rbd) \<notin> set (dirsToSearch opts rbd)
    \<and> (\<forall>allc. find_all_matches E opts rbd (dirsToSearch opts rbd) = Inr allc \<longrightarrow>
          (\<forall>cands\<in>set allc. \<forall>c\<in>set cands. \<forall>inst\<in>set (instances c).
              filename inst \<notin> row_file ` set (snd (last rbd)))
        \<and> (\<forall>cands\<in>set (find_suspicious opts allc). \<forall>c\<in>set cands.
              \<forall>inst\<in>set (instances c).
                filename inst \<notin> row_file ` set (snd (last rbd)))
        \<and> (\<forall>table'. update_detection_table E opts f2r (find_suspicious opts allc) table
                       = Inr table' \<longrightarrow>
              (\<forall>i < length table. table ! i \<in> set (snd (last rbd)) \<longrightarrow>
                 detections (table' ! i) = detections (table ! i))))
    \<and> (\<forall>res. length (filterFileToLoad opts) = 0
            \<and> find_repeat_detections E opts table = Inr res \<longrightarrow>
          map fst (rowsByDirectory res) = map fst rbd
        \<and> snd (last (rowsByDirectory res)) = snd (last rbd)
        \<and> (\<forall>cands\<in>set (suspiciousDetections res). \<forall>c\<in>set cands.
              \<forall>inst\<in>set (instances c).
                filename inst \<notin> row_file ` set (snd (last rbd)))
        \<and> (\<forall>i < length table. table ! i \<in> set (snd (last rbd)) \<longrightarrow>
              detections (detectionResults res ! i) = detections (table ! i)))"
proof -
  let ?dirs = "dirsToSearch opts rbd"
  let ?S = "\<Union>d\<in>set ?dirs. row_file ` set (rows_of rbd d)"
  let ?L = "row_file ` set (snd (last rbd))"
  note facts = separate_files_Inr [OF sep]
  have rbd_ne: "rbd \<noteq> []"
  proof
    assume "rbd = []"
    with facts(4) have "set table = {}" by simp
    with ne show False by simp
  qed
  have dirs: "?dirs = butlast (map fst rbd)"
    using dbg by (simp add: dirsToSearch_def py_slice_to_minus_one)
  have "butlast (map fst rbd) @ [last (map fst rbd)] = map fst rbd"
    using rbd_ne by simp
  then have "distinct (butlast (map fst rbd) @ [fst (last rbd)])"
    using facts(1) rbd_ne by (simp add: last_map)
  then have notin: "fst (last rbd) \<notin> set ?dirs"
    unfolding dirs by simp
  have disjoint: "x \<notin> ?L" if x: "x \<in> ?S" for x
  proof
    assume "x \<in> ?L"
    then obtain r where r: "r \<in> set (snd (last rbd))" and xr: "x = row_file r" by blast
    obtain dl rows where dl: "last rbd = (dl, rows)" by (cases "last rbd")
    have "last rbd \<in> set rbd" using rbd_ne by simp
    with dl facts(1) have "rows_of rbd dl = rows" by (simp add: rows_of_member)
    with facts(5) have "rows = filter (\<lambda>r. dir_key E opts (row_file r) = dl) table" by simp
    with r dl have "r \<in> set table" by simp
    then obtain i where i: "i < length table" "table ! i = r"
      by (auto simp: in_set_conv_nth)
    with facts(6) xr have fx: "f2r x = Some i" by auto
    from i r have "table ! i \<in> set (snd (last rbd))" by simp
    from last_group_not_indexed [OF sep rbd_ne i(1) this] x dirs fx
    show False by simp
  qed
  have free: "\<forall>cands\<in>set susp. \<forall>c\<in>set cands. \<forall>inst\<in>set (instances c). filename inst \<notin> ?L"
    if "\<forall>cands\<in>set susp. files_in ?S cands" for susp
    using that disjoint unfolding files_in_def by blast
  have in_all: "\<forall>cands\<in>set allc. files_in ?S cands"
    if "find_all_matches E opts rbd ?dirs = Inr allc" for allc
    using find_all_matches_files [OF that] .
  have in_susp: "\<forall>cands\<in>set (find_suspicious opts allc). files_in ?S cands"
    if "find_all_matches E opts rbd ?dirs = Inr allc" for allc
    using find_suspicious_files [OF in_all [OF that]] .
  have untouched: "detections (table' ! i) = detections (table ! i)"
    if fam: "find_all_matches E opts rbd ?dirs = Inr allc"
      and upd: "update_detection_table E opts f2r (find_suspicious opts allc) table = Inr table'"
      and i: "i < length table" and l: "table ! i \<in> set (snd (last rbd))"
    for allc table' i
  proof -
    have "\<forall>x\<in>?S. f2r x \<noteq> Some i"
      using last_group_not_indexed [OF sep rbd_ne i l] dirs by simp
    from update_detection_table_other [OF upd in_susp [OF fam] this i] show ?thesis .
  qed
  have stage: "(\<forall>cands\<in>set allc. \<forall>c\<in>set cands. \<forall>inst\<in>set (instances c).
              filename inst \<notin> ?L)
        \<and> (\<forall>cands\<in>set (find_suspicious opts allc). \<forall>c\<in>set cands.
              \<forall>inst\<in>set (instances c). filename inst \<notin> ?L)
        \<and> (\<forall>table'. update_detection_table E opts f2r (find_suspicious opts allc) table
                       = Inr table' \<longrightarrow>
              (\<forall>i < length table. table ! i \<in> set (snd (last rbd)) \<longrightarrow>
                 detections (table' ! i) = detections (table ! i)))"
    if fam: "find_all_matches E opts rbd ?dirs = Inr allc" for allc
    using free [OF in_all [OF fam]] free [OF in_susp [OF fam]] untouched [OF fam]
    by blast
  have whole: "map fst (rowsByDirectory res) = map fst rbd
        \<and> snd (last (rowsByDirectory res)) = snd (last rbd)
        \<and> (\<forall>cands\<in>set (suspiciousDetections res). \<forall>c\<in>set cands.
              \<forall>inst\<in>set (instances c). filename inst \<notin> ?L)
        \<and> (\<forall>i < length table. table ! i \<in> set (snd (last rbd)) \<longrightarrow>
              detections (detectionResults res ! i) = detections (table ! i))"
    if disc: "length (filterFileToLoad opts) = 0"
      and run: "find_repeat_detections E opts table = Inr res" for res
  proof -
    from run sep disc obtain allc table' susp' where
      fam: "find_all_matches E opts rbd ?dirs = Inr allc"
      and upd: "update_detection_table E opts f2r (find_suspicious opts allc) table = Inr table'"
      and ws: "susp' = find_suspicious opts allc
               \<or> write_samples E opts 0 (find_suspicious opts allc) = Inr susp'"
      and res: "res = \<lparr>detectionResults = table',
                        rowsByDirectory = shared_groups f2r table' rbd,
                        filenameToRow = f2r, suspiciousDetections = susp'\<rparr>"
      by (auto simp: find_repeat_detections_def Let_def split: sum.splits if_splits)
    have same: "shared_detections f2r table' r = r" if r: "r \<in> set (snd (last rbd))" for r
    proof -
      obtain dl rows where dl: "last rbd = (dl, rows)" by (cases "last rbd")
      have "last rbd \<in> set rbd" using rbd_ne by simp
      with dl facts(1) have "rows_of rbd dl = rows" by (simp add: rows_of_member)
      with facts(5) have "rows = filter (\<lambda>r. dir_key E opts (row_file r) = dl) table" by simp
      with r dl have "r \<in> set table" by simp
      then obtain i where i: "i < length table" "table ! i = r"
        by (auto simp: in_set_conv_nth)
      with facts(6) have fx: "f2r (row_file r) = Some i" by auto
      from i r have "table ! i \<in> set (snd (last rbd))" by simp
      from untouched [OF fam upd i(1) this] i(2)
      have "detections (table' ! i) = detections r" by simp
      with fx show ?thesis
        by (simp add: shared_detections_def)
    qed
    have last_same: "snd (last (shared_groups f2r table' rbd)) = snd (last rbd)"
    proof -
      have "snd (last (shared_groups f2r table' rbd))
          = map (shared_detections f2r table') (snd (last rbd))"
        using rbd_ne by (simp add: shared_groups_def last_map case_prod_beta)
      also have "\<dots> = snd (last rbd)"
        using same by (simp add: map_idI)
      finally show ?thesis .
    qed
    have keys_same: "map fst (shared_groups f2r table' rbd) = map fst rbd"
      by (simp add: shared_groups_def case_prod_beta cong: map_cong)
    have "map (map instances) susp' = map (map instances) (find_suspicious opts allc)"
      using ws write_samples_instances by blast
    from free [OF files_in_instances [OF this in_susp [OF fam]]] untouched [OF fam upd]
      keys_same last_same
    show ?thesis
      unfolding res by simp
  qed
  from dirs notin stage whole show ?thesis
    by blast
qed

theorem last_directory_never_searched_witness:
  "\<exists>res. find_repeat_detections test_env two_dir_options two_dir_table = Inr res
     \<and> debugMaxDir two_dir_options = - 1
     \<and> dirsToSearch two_dir_options (rowsByDirectory res)
         = butlast (map fst (rowsByDirectory res))
     \<and> map (map (\<lambda>c. length (instances c))) (suspiciousDetections res) = [[2]]
     \<and> map (\<lambda>r. map conf (detections r)) (detectionResults res)
         = [[- 0.9], [- 0.9], [0.9], [0.9]]"
proof -
  have summary: "run_summary (find_repeat_detections test_env two_dir_options two_dir_table)
     = Inr ([[2]], [[- 0.9], [- 0.9], [0.9], [0.9]])"
    by code_simp
  then obtain res where
    run: "find_repeat_detections test_env two_dir_options two_dir_table = Inr res"
    by (cases "find_repeat_detections test_env two_dir_options two_dir_table")
      (simp_all add: run_summary_def)
  then obtain rbd f2r where
    sep: "separate_files test_env two_dir_options two_dir_table = Inr (rbd, f2r)"
    by (auto simp: find_repeat_detections_def split: sum.splits)
  have dbg: "debugMaxDir two_dir_options = - 1"
    and disc: "length (filterFileToLoad two_dir_options) = 0"
    by (simp_all add: two_dir_options_def default_options_def)
  have ne: "two_dir_table \<noteq> []"
    by (simp add: two_dir_table_def)
  note inst = last_directory_never_searched [OF dbg sep ne]
  from inst have d: "dirsToSearch two_dir_options rbd = butlast (map fst rbd)"
    by (rule conjunct1)
  from inst disc run have "map fst (rowsByDirectory res) = map fst rbd"
    by blast
  with d have "dirsToSearch two_dir_options (rowsByDirectory res)
         = butlast (map fst (rowsByDirectory res))"
    by (simp add: dirsToSearch_def)
  with summary run dbg show ?thesis
    by (simp add: run_summary_def)
qed

text \<open>The groups returned by that run: the rows of \<^verbatim>\<open>A\<close> show the negated
  confidences with their cached maximum still 0.9; the rows of \<^verbatim>\<open>B\<close> are as loaded.\<close>

lemma two_dir_groups_returned:
  "(case find_repeat_detections test_env two_dir_options two_dir_table of
      Inl e \<Rightarrow> Inl e
    | Inr res \<Rightarrow>
        Inr (map (\<lambda>(d, rows).
               (d, map (\<lambda>r. (max_detection_conf r, map conf (detections r))) rows))
             (rowsByDirectory res)))
   = Inr [(''A'', [(0.9, [- 0.9]), (0.9, [- 0.9])]), (''B'', [(0.9, [0.9]), (0.9, [0.9])])]"
  by code_simp

subsection \<open>The scenario of one directory\<close>

text \<open>C1. On the scenario's table (twenty images in the single directory \<^verbatim>\<open>A\<close>,
  one detection each) with \<^verbatim>\<open>occurrenceThreshold\<close> 15, \<^verbatim>\<open>iouThreshold\<close> 0.9,
  \<^verbatim>\<open>confidenceMin\<close> 0.85 and the other options at their defaults, the run returns no
  list of suspicious locations at all and every detection keeps its confidence 0.9:
  the only directory is the last one, which \<^verbatim>\<open>debugMaxDir = -1\<close> leaves out.\<close>

theorem scenario_single_directory:
  "run_summary (find_repeat_detections test_env scenario_options scenario_table)
     = Inr ([], replicate 20 [0.9])"
  by code_simp

text \<open>When the directory is searched (\<^verbatim>\<open>debugMaxDir = 1\<close>), the same table gives one
  suspicious location with twenty instances, and every confidence becomes -0.9.\<close>

lemma scenario_directory_searched:
  "run_summary (find_repeat_detections test_env (scenario_options\<lparr>debugMaxDir := 1\<rparr>)
      scenario_table)
     = Inr ([[20]], replicate 20 [- 0.9])"
  by code_simp

end
